theory Spec2Isabelle
  imports Complex_Main
begin

section \<open>Python strings and lists\<close>

text \<open>
  A Python \<open>str\<close> is modelled as a \<open>string\<close>: a list of characters, each character a code
  point in the range 0..255 (the Latin-1 block of Unicode), so that \<open>length\<close> counts code
  points as Python's \<open>len\<close> does.  Python's unbounded \<open>int\<close> is \<open>int\<close>.
\<close>

definition isspace :: "char \<Rightarrow> bool" where
  \<comment> \<open>\<open>str.isspace\<close> and the regular expression class \<open>\s\<close> on code points below 256\<close>
  "isspace c = (c \<in> {CHR 0x09, CHR 0x0A, CHR 0x0B, CHR 0x0C, CHR 0x0D,
                       CHR 0x1C, CHR 0x1D, CHR 0x1E, CHR 0x1F, CHR 0x20, CHR 0x85, CHR 0xA0})"

fun split_words :: "string \<Rightarrow> string \<Rightarrow> string list" where
  "split_words cur [] = (if cur = [] then [] else [cur])"
| "split_words cur (c # cs) =
     (if isspace c then (if cur = [] then [] else [cur]) @ split_words [] cs
      else split_words (cur @ [c]) cs)"

definition str_split :: "string \<Rightarrow> string list" where
  \<comment> \<open>\<open>s.split()\<close>: the maximal runs of non-whitespace characters\<close>
  "str_split s = split_words [] s"

fun str_join :: "string \<Rightarrow> string list \<Rightarrow> string" where
  "str_join sep [] = []"
| "str_join sep [x] = x"
| "str_join sep (x # y # ys) = x @ sep @ str_join sep (y # ys)"

definition str_strip :: "string \<Rightarrow> string" where
  "str_strip s = rev (dropWhile isspace (rev (dropWhile isspace s)))"

definition slice_bound :: "int \<Rightarrow> int \<Rightarrow> int" where
  \<comment> \<open>a slice index of a list of length \<open>n\<close>: negative counts from the end, then clamped\<close>
  "slice_bound n i = (if i < 0 then max (i + n) 0 else min i n)"

definition py_slice :: "'a list \<Rightarrow> int \<Rightarrow> int \<Rightarrow> 'a list" where
  \<comment> \<open>\<open>xs[a:b]\<close>\<close>
  "py_slice xs a b =
     (let n = int (length xs); lo = slice_bound n a; hi = slice_bound n b
      in take (nat (hi - lo)) (drop (nat lo) xs))"

section \<open>The chunking service\<close>

datatype chunk_metadata =
    FixedMeta (word_count: int) (char_count: int)
  | ParagraphMeta (word_count: int)
  | MultiSentenceMeta (sentence_count: int) (word_count: int)

record chunk =
  c_text :: string
  c_index :: int
  start_char :: int
  end_char :: int
  c_metadata :: chunk_metadata

record chunking_service =
  default_chunk_size :: int
  default_overlap :: int

subsection \<open>Fixed-size chunking\<close>

definition fixed_chunk :: "int \<Rightarrow> string list \<Rightarrow> int \<Rightarrow> int \<Rightarrow> chunk" where
  \<comment> \<open>the body of the \<open>while\<close> loop up to \<open>chunks.append(chunk)\<close>\<close>
  "fixed_chunk chunk_size words start_idx chunk_index =
     (let end_idx = min (start_idx + chunk_size) (int (length words));
          chunk_words = py_slice words start_idx end_idx;
          chunk_text = str_join '' '' chunk_words;
          start_c = int (length (str_join '' '' (py_slice words 0 start_idx)));
          end_c = start_c + int (length chunk_text)
      in \<lparr>c_text = chunk_text, c_index = chunk_index, start_char = start_c, end_char = end_c,
          c_metadata = FixedMeta (int (length chunk_words)) (int (length chunk_text))\<rparr>)"

partial_function (option)
  fixed_loop :: "int \<Rightarrow> int \<Rightarrow> string list \<Rightarrow> int \<Rightarrow> int \<Rightarrow> chunk list \<Rightarrow> chunk list option"
where
  "fixed_loop chunk_size overlap words start_idx chunk_index chunks =
     (if start_idx < int (length words)
      then fixed_loop chunk_size overlap words (start_idx + (chunk_size - overlap))
             (chunk_index + 1) (chunks @ [fixed_chunk chunk_size words start_idx chunk_index])
      else Some chunks)"

definition fixed_chunking :: "chunking_service \<Rightarrow> string \<Rightarrow> chunk list option" where
  \<comment> \<open>\<open>None\<close>: the loop does not return\<close>
  "fixed_chunking self text =
     (let words = str_split text
      in if words = [] then Some []
         else fixed_loop (default_chunk_size self) (default_overlap self) words 0 0 [])"

subsection \<open>Paragraphs and sentences\<close>

definition blank_gap :: "string \<Rightarrow> nat option" where
  \<comment> \<open>after a newline: how many characters the greedy \<open>\s*\n\<close> consumes, if it matches\<close>
  "blank_gap cs =
     (let ws = takeWhile isspace cs
      in if CHR 0x0A \<in> set ws
         then Some (length ws - length (takeWhile (\<lambda>c. c \<noteq> CHR 0x0A) (rev ws)))
         else None)"

fun re_split_blank_lines :: "string \<Rightarrow> string \<Rightarrow> string list" where
  \<comment> \<open>\<open>re.split(r'\n\s*\n', text)\<close>, with the piece read so far\<close>
  "re_split_blank_lines cur [] = [cur]"
| "re_split_blank_lines cur (c # cs) =
     (if c = CHR 0x0A
      then (case blank_gap cs of
              Some k \<Rightarrow> cur # re_split_blank_lines [] (drop k cs)
            | None \<Rightarrow> re_split_blank_lines (cur @ [c]) cs)
      else re_split_blank_lines (cur @ [c]) cs)"

definition split_paragraphs :: "string \<Rightarrow> string list" where
  "split_paragraphs text =
     [str_strip p. p \<leftarrow> re_split_blank_lines [] text, str_strip p \<noteq> []]"

definition is_terminator :: "char \<Rightarrow> bool" where
  "is_terminator c = (c = CHR ''.'' \<or> c = CHR ''!'' \<or> c = CHR ''?'')"

fun re_split_terminators :: "bool \<Rightarrow> string \<Rightarrow> string \<Rightarrow> string list" where
  \<comment> \<open>\<open>re.split(r'[.!?]+', text)\<close>; the flag says that the previous character was part of
      a separator run\<close>
  "re_split_terminators in_run cur [] = [cur]"
| "re_split_terminators in_run cur (c # cs) =
     (if is_terminator c
      then (if in_run then re_split_terminators True cur cs
            else cur # re_split_terminators True [] cs)
      else re_split_terminators False (cur @ [c]) cs)"

type_synonym tokenizer = "string \<Rightarrow> string list option"

text \<open>
  \<open>nltk.sent_tokenize\<close> is a library outside the repository: it is a parameter of the model,
  a function that either returns the sentences of a text or fails (\<open>None\<close>, any exception),
  in which case the code falls back on the punctuation split.
\<close>

definition split_sentences :: "tokenizer \<Rightarrow> string \<Rightarrow> string list" where
  "split_sentences sent_tokenize text =
     (case sent_tokenize text of
        Some sentences \<Rightarrow> [str_strip s. s \<leftarrow> sentences, str_strip s \<noteq> []]
      | None \<Rightarrow> [str_strip s. s \<leftarrow> re_split_terminators False [] text, str_strip s \<noteq> []])"

subsection \<open>Dynamic chunking\<close>

definition multi_sentence_chunk :: "string list \<Rightarrow> int \<Rightarrow> int \<Rightarrow> int \<Rightarrow> chunk" where
  "multi_sentence_chunk current_chunk current_size chunk_index current_position =
     (let chunk_text = str_join '' '' current_chunk
      in \<lparr>c_text = chunk_text, c_index = chunk_index, start_char = current_position,
          end_char = current_position + int (length chunk_text),
          c_metadata = MultiSentenceMeta (int (length current_chunk)) current_size\<rparr>)"

definition paragraph_chunk :: "string \<Rightarrow> int \<Rightarrow> int \<Rightarrow> chunk" where
  "paragraph_chunk para chunk_index current_position =
     \<lparr>c_text = para, c_index = chunk_index, start_char = current_position,
      end_char = current_position + int (length para),
      c_metadata = ParagraphMeta (int (length (str_split para)))\<rparr>"

type_synonym sentence_state = "chunk list \<times> int \<times> int \<times> string list \<times> int"
  \<comment> \<open>\<open>chunks\<close>, \<open>chunk_index\<close>, \<open>current_position\<close>, \<open>current_chunk\<close>, \<open>current_size\<close>\<close>

fun sentence_step :: "int \<Rightarrow> sentence_state \<Rightarrow> string \<Rightarrow> sentence_state" where
  \<comment> \<open>one iteration of \<open>for sentence in sentences\<close>\<close>
  "sentence_step chunk_size (chunks, chunk_index, current_position, current_chunk, current_size)
       sentence =
     (let sentence_size = int (length (str_split sentence))
      in if current_size + sentence_size > chunk_size \<and> current_chunk \<noteq> []
         then (chunks @ [multi_sentence_chunk current_chunk current_size chunk_index
                           current_position],
               chunk_index + 1,
               current_position + int (length (str_join '' '' current_chunk)) + 1,
               [sentence], sentence_size)
         else (chunks, chunk_index, current_position,
               current_chunk @ [sentence], current_size + sentence_size))"

type_synonym paragraph_state = "chunk list \<times> int \<times> int"
  \<comment> \<open>\<open>chunks\<close>, \<open>chunk_index\<close>, \<open>current_position\<close>\<close>

fun paragraph_step ::
  "chunking_service \<Rightarrow> tokenizer \<Rightarrow> paragraph_state \<Rightarrow> string \<Rightarrow> paragraph_state" where
  \<comment> \<open>one iteration of \<open>for para in paragraphs\<close>\<close>
  "paragraph_step self sent_tokenize (chunks, chunk_index, current_position) para =
     (if str_strip para = [] then (chunks, chunk_index, current_position)
      else if int (length (str_split para)) > default_chunk_size self
      then (case foldl (sentence_step (default_chunk_size self))
                   (chunks, chunk_index, current_position, [], 0)
                   (split_sentences sent_tokenize para) of
              (chunks, chunk_index, current_position, current_chunk, current_size) \<Rightarrow>
                if current_chunk \<noteq> []
                then (chunks @ [multi_sentence_chunk current_chunk current_size chunk_index
                                  current_position],
                      chunk_index + 1,
                      current_position + int (length (str_join '' '' current_chunk)) + 1)
                else (chunks, chunk_index, current_position))
      else (chunks @ [paragraph_chunk para chunk_index current_position],
            chunk_index + 1, current_position + int (length para) + 1))"

definition dynamic_chunking :: "chunking_service \<Rightarrow> tokenizer \<Rightarrow> string \<Rightarrow> chunk list" where
  "dynamic_chunking self sent_tokenize text =
     fst (foldl (paragraph_step self sent_tokenize) ([], 0, 0) (split_paragraphs text))"

subsection \<open>Python floats\<close>

text \<open>
  A Python \<open>float\<close> is an IEEE 754 binary64 number, modelled as the real number it
  denotes.  An arithmetic operation on floats, and the true division of two integers,
  returns the exact result rounded to the nearest binary64 value, ties to the even
  significand: \<open>to_binary64\<close> of the exact result.  The significand has 53 bits and the
  least exponent is -1022 (below it the numbers are subnormal, with the spacing of that
  exponent); overflow to infinity is not modelled.
\<close>

definition round_half_even :: "real \<Rightarrow> int" where
  "round_half_even x =
     (let f = \<lfloor>x\<rfloor>; r = x - of_int f
      in if r < 1 / 2 then f else if 1 / 2 < r then f + 1 else if even f then f else f + 1)"

definition binary64_exponent :: "real \<Rightarrow> int" where
  \<comment> \<open>the exponent \<open>e\<close> of a non-zero number, \<open>2 ^ e \<le> |x| < 2 ^ (e + 1)\<close>, not below -1022\<close>
  "binary64_exponent x = max \<lfloor>log 2 \<bar>x\<bar>\<rfloor> (- 1022)"

definition to_binary64 :: "real \<Rightarrow> real" where
  \<comment> \<open>the nearest multiple of the spacing \<open>2 ^ (e - 52)\<close>\<close>
  "to_binary64 x =
     (if x = 0 then 0
      else let ulp = 2 powi (binary64_exponent x - 52)
           in of_int (round_half_even (x / ulp)) * ulp)"

subsection \<open>Complexity and structure\<close>

text \<open>
  \<open>calculate_complexity\<close> is the exact value of the formula of \<open>_calculate_complexity\<close>;
  \<open>calculate_complexity_float\<close> is the float that the code computes, every operation rounded
  to binary64, and is what \<open>decide_strategy\<close> compares with the float \<open>0.6\<close>.
\<close>

definition is_upper :: "char \<Rightarrow> bool" where
  \<comment> \<open>uppercase code points below 256\<close>
  "is_upper c = (let n = (of_char c :: nat)
                 in (65 \<le> n \<and> n \<le> 90) \<or> (192 \<le> n \<and> n \<le> 214) \<or> (216 \<le> n \<and> n \<le> 222))"

definition is_lower :: "char \<Rightarrow> bool" where
  \<comment> \<open>lowercase code points below 256\<close>
  "is_lower c = (let n = (of_char c :: nat)
                 in (97 \<le> n \<and> n \<le> 122) \<or> n = 170 \<or> n = 181 \<or> n = 186
                    \<or> (223 \<le> n \<and> n \<le> 246) \<or> (248 \<le> n \<and> n \<le> 255))"

definition str_lower :: "string \<Rightarrow> string" where
  "str_lower s = map (\<lambda>c. if is_upper c then char_of (of_char c + (32 :: nat)) else c) s"

definition str_isupper :: "string \<Rightarrow> bool" where
  \<comment> \<open>no lowercase character and at least one uppercase character\<close>
  "str_isupper s = (list_all (\<lambda>c. \<not> is_lower c) s \<and> list_ex is_upper s)"

definition str_endswith :: "string \<Rightarrow> char \<Rightarrow> bool" where
  "str_endswith s c = (s \<noteq> [] \<and> last s = c)"

fun split_on :: "char \<Rightarrow> string \<Rightarrow> string \<Rightarrow> string list" where
  \<comment> \<open>\<open>s.split(d)\<close> for a one-character separator, with the piece read so far\<close>
  "split_on d cur [] = [cur]"
| "split_on d cur (c # cs) =
     (if c = d then cur # split_on d [] cs else split_on d (cur @ [c]) cs)"

definition calculate_complexity :: "tokenizer \<Rightarrow> string \<Rightarrow> real" where
  "calculate_complexity sent_tokenize text =
     (let sentences = split_sentences sent_tokenize text
      in if sentences = [] then 0
         else
           let avg_sentence_length =
                 real_of_int (sum_list (map (\<lambda>s. int (length (str_split s))) sentences))
                   / real (length sentences);
               length_score = min (avg_sentence_length / 30) 1;
               words = str_split (str_lower text);
               diversity_score =
                 (if words \<noteq> [] then real (card (set words)) / real (length words) else 0)
           in (length_score + diversity_score) / 2)"

definition calculate_complexity_float :: "tokenizer \<Rightarrow> string \<Rightarrow> real" where
  "calculate_complexity_float sent_tokenize text =
     (let sentences = split_sentences sent_tokenize text
      in if sentences = [] then 0
         else
           let avg_sentence_length =
                 to_binary64
                   (real_of_int (sum_list (map (\<lambda>s. int (length (str_split s))) sentences))
                      / real (length sentences));
               length_score = min (to_binary64 (avg_sentence_length / 30)) 1;
               words = str_split (str_lower text);
               diversity_score =
                 (if words \<noteq> []
                  then to_binary64 (real (card (set words)) / real (length words)) else 0)
           in to_binary64 (to_binary64 (length_score + diversity_score) / 2))"

definition is_list_marker :: "char \<Rightarrow> bool" where
  \<comment> \<open>the class \<open>[\-\*\<bullet>\d]\<close> on code points below 256 (the bullet U+2022 lies outside)\<close>
  "is_list_marker c = (c = CHR ''-'' \<or> c = CHR ''*''
                       \<or> (48 \<le> (of_char c :: nat) \<and> (of_char c :: nat) \<le> 57))"

definition list_pattern_match :: "string \<Rightarrow> bool" where
  \<comment> \<open>the anchored match of \<open>^\s*[\-\*\<bullet>\d]+[\.\)]\s+\<close>\<close>
  "list_pattern_match line =
     (let r1 = dropWhile isspace line; r2 = dropWhile is_list_marker r1
      in takeWhile is_list_marker r1 \<noteq> [] \<and>
         (case r2 of
            [] \<Rightarrow> False
          | c # r3 \<Rightarrow> (c = CHR ''.'' \<or> c = CHR '')'') \<and>
                       (case r3 of [] \<Rightarrow> False | d # _ \<Rightarrow> isspace d)))"

definition is_heading :: "string \<Rightarrow> bool" where
  \<comment> \<open>the body of the first loop over the lines\<close>
  "is_heading line0 =
     (let line = str_strip line0
      in line \<noteq> [] \<and> length (str_split line) < 10 \<and>
         (str_isupper line \<or> str_endswith line CHR '':''))"

definition has_structural_elements :: "string \<Rightarrow> bool" where
  "has_structural_elements text =
     (let lines = split_on CHR 0x0A [] text
      in if list_ex is_heading lines then True else list_ex list_pattern_match lines)"

definition decide_strategy ::
  "chunking_service \<Rightarrow> tokenizer \<Rightarrow> string \<Rightarrow> (string \<rightharpoonup> string) \<Rightarrow> string" where
  "decide_strategy self sent_tokenize text metadata =
     (let complexity_score = calculate_complexity_float sent_tokenize text;
          has_structure = has_structural_elements text;
          language = (case metadata ''language'' of Some l \<Rightarrow> l | None \<Rightarrow> ''unknown'')
      in if complexity_score > to_binary64 0.6 \<or> has_structure then ''dynamic''
         else ''fixed'')"

section \<open>The retrieval service\<close>

text \<open>
  The embedding model and the vector collection are outside the repository: they are fields
  of the service, functions that return a value or fail.  The relational store is the two
  tables, each a list of rows in the order in which the database returns them.  The clock is
  read twice in \<open>semantic_search\<close>; the two readings are arguments.  Every query sent to the
  vector collection is appended to a log, which the functions return beside their result.
\<close>

datatype error = UpstreamFailure string

record chunk_row =
  cr_id :: string
  cr_document_id :: string
  cr_chunk_index :: int
  cr_chunk_text :: string

record document_row =
  doc_id :: string
  filename :: string
  language :: string

record vector_results =
  ids :: "string list list"
  distances :: "real list list"
  \<comment> \<open>an absent (\<open>None\<close>) or empty \<open>distances\<close> entry is \<open>[]\<close>: both are falsy\<close>

type_synonym vector_query = "real list \<times> int \<times> string option"
  \<comment> \<open>\<open>query_embeddings[0]\<close>, \<open>n_results\<close>, the \<open>document_id\<close> of \<open>where\<close>\<close>

record rag_service =
  generate_embedding :: "string \<Rightarrow> error + real list"
  collection_query :: "vector_query \<Rightarrow> error + vector_results"
  chunks_table :: "chunk_row list"
  documents_table :: "document_row list"

record search_result =
  chunk_id :: string
  document_id :: string
  document_name :: string
  chunk_text :: string
  similarity_score :: real
  chunk_index :: int

record search_response =
  query :: string
  results :: "search_result list"
  total_results :: int
  processing_time :: real

definition py_round :: "real \<Rightarrow> nat \<Rightarrow> real" where
  \<comment> \<open>the exact value \<open>x\<close> rounded to \<open>n\<close> decimals, ties to even; \<open>round(x, n)\<close> is the
      float nearest to it\<close>
  "py_round x n = of_int (round_half_even (x * 10 ^ n)) / 10 ^ n"

definition first_or_empty :: "'a list list \<Rightarrow> 'a list" where
  \<comment> \<open>\<open>x[0] if x else []\<close>\<close>
  "first_or_empty x = (case x of [] \<Rightarrow> [] | first # _ \<Rightarrow> first)"

definition search_similar_chunks ::
  "rag_service \<Rightarrow> real list \<Rightarrow> int \<Rightarrow> string option \<Rightarrow> vector_query" where
  \<comment> \<open>the query that \<open>StorageService.search_similar_chunks\<close> sends to the collection\<close>
  "search_similar_chunks self query_embedding top_k doc =
     (query_embedding, top_k,
      (case doc of None \<Rightarrow> None | Some d \<Rightarrow> if d \<noteq> [] then Some d else None))"

definition get_chunk_details :: "rag_service \<Rightarrow> string list \<Rightarrow> chunk_row list" where
  \<comment> \<open>\<open>db.query(Chunk).filter(Chunk.id.in_(chunk_ids)).all()\<close>: the rows of the table whose
      id is in the list, in the order of the table\<close>
  "get_chunk_details self chunk_ids = filter (\<lambda>row. cr_id row \<in> set chunk_ids) (chunks_table self)"

definition get_document :: "rag_service \<Rightarrow> string \<Rightarrow> document_row option" where
  \<comment> \<open>\<open>db.query(Document).filter(Document.id == document_id).first()\<close>\<close>
  "get_document self d = find (\<lambda>row. doc_id row = d) (documents_table self)"

definition build_result :: "rag_service \<Rightarrow> real list \<Rightarrow> nat \<times> chunk_row \<Rightarrow> search_result" where
  \<comment> \<open>the body of \<open>for i, chunk in enumerate(chunks)\<close>\<close>
  "build_result self dists ic =
     (case ic of (i, chunk) \<Rightarrow>
        let similarity = to_binary64 (1 - (if i < length dists then dists ! i else 1));
            document = get_document self (cr_document_id chunk)
        in \<lparr>chunk_id = cr_id chunk, document_id = cr_document_id chunk,
            document_name = (case document of Some d \<Rightarrow> filename d | None \<Rightarrow> ''Unknown''),
            chunk_text = cr_chunk_text chunk,
            similarity_score = to_binary64 (py_round similarity 4),
            chunk_index = cr_chunk_index chunk\<rparr>)"

definition semantic_search ::
  "rag_service \<Rightarrow> string \<Rightarrow> int \<Rightarrow> string option \<Rightarrow> real \<Rightarrow> real \<Rightarrow> vector_query list
     \<Rightarrow> (error + search_response) \<times> vector_query list" where
  "semantic_search self q top_k doc start_time now qlog =
     (case generate_embedding self q of
        Inl e \<Rightarrow> (Inl e, qlog)
      | Inr query_embedding \<Rightarrow>
          let vq = search_similar_chunks self query_embedding top_k doc;
              qlog' = qlog @ [vq]
          in case collection_query self vq of
               Inl e \<Rightarrow> (Inl e, qlog')
             | Inr vector_results \<Rightarrow>
                 let chunk_ids = first_or_empty (ids vector_results)
                 in if chunk_ids = []
                    then (Inr \<lparr>query = q, results = [], total_results = 0,
                               processing_time = now - start_time\<rparr>, qlog')
                    else
                      let chunks = get_chunk_details self chunk_ids;
                          dists = first_or_empty (distances vector_results);
                          rs = map (build_result self dists) (enumerate 0 chunks)
                      in (Inr \<lparr>query = q, results = rs, total_results = int (length rs),
                                processing_time = py_round (now - start_time) 3\<rparr>, qlog'))"

definition language_matches :: "rag_service \<Rightarrow> string \<Rightarrow> search_result \<Rightarrow> bool" where
  \<comment> \<open>\<open>doc and doc.language == language_filter\<close>\<close>
  "language_matches self language_filter result =
     (case get_document self (document_id result) of
        Some doc \<Rightarrow> language doc = language_filter
      | None \<Rightarrow> False)"

definition filters_document_id :: "(string \<rightharpoonup> string) option \<Rightarrow> string option" where
  \<comment> \<open>\<open>filters.get('document_id') if filters else None\<close>\<close>
  "filters_document_id filters = (case filters of None \<Rightarrow> None | Some f \<Rightarrow> f ''document_id'')"

definition hybrid_search ::
  "rag_service \<Rightarrow> string \<Rightarrow> int \<Rightarrow> (string \<rightharpoonup> string) option \<Rightarrow> real \<Rightarrow> real
     \<Rightarrow> vector_query list \<Rightarrow> (error + search_response) \<times> vector_query list" where
  "hybrid_search self q top_k filters start_time now qlog =
     (case semantic_search self q top_k (filters_document_id filters) start_time now qlog of
        (Inl e, qlog') \<Rightarrow> (Inl e, qlog')
      | (Inr response, qlog') \<Rightarrow>
          (case (case filters of None \<Rightarrow> None | Some f \<Rightarrow> f ''language'') of
             Some language_filter \<Rightarrow>
               let filtered_results = filter (language_matches self language_filter)
                                             (results response)
               in (Inr (response\<lparr>results := filtered_results,
                                   total_results := int (length filtered_results)\<rparr>), qlog')
           | None \<Rightarrow> (Inr response, qlog')))"

subsection \<open>Auxiliary notions for the statements\<close>

definition window :: "chunking_service \<Rightarrow> string list \<Rightarrow> nat \<Rightarrow> int \<times> int" where
  \<comment> \<open>the word indices \<open>[lo:hi]\<close> of the \<open>k\<close>-th window over \<open>words\<close>\<close>
  "window self words k =
     (let lo = int k * (default_chunk_size self - default_overlap self)
      in (lo, min (lo + default_chunk_size self) (int (length words))))"




definition example_service :: "real list list \<Rightarrow> rag_service" where
  \<comment> \<open>a store of two chunks of one English document; the collection ranks \<open>c2\<close> before \<open>c1\<close>
      and returns the given distances\<close>
  "example_service ds =
     \<lparr>generate_embedding = (\<lambda>_. Inr [0]),
      collection_query = (\<lambda>_. Inr \<lparr>ids = [[''c2'', ''c1'']], distances = ds\<rparr>),
      chunks_table =
        [\<lparr>cr_id = ''c1'', cr_document_id = ''d'', cr_chunk_index = 0, cr_chunk_text = ''alpha''\<rparr>,
         \<lparr>cr_id = ''c2'', cr_document_id = ''d'', cr_chunk_index = 1, cr_chunk_text = ''beta''\<rparr>],
      documents_table = [\<lparr>doc_id = ''d'', filename = ''f.txt'', language = ''english''\<rparr>]\<rparr>"

definition empty_service :: rag_service where
  \<comment> \<open>nothing stored: the collection returns no ids\<close>
  "empty_service =
     \<lparr>generate_embedding = (\<lambda>_. Inr [0]),
      collection_query = (\<lambda>_. Inr \<lparr>ids = [[]], distances = [[]]\<rparr>),
      chunks_table = [], documents_table = []\<rparr>"

definition within_budget :: "int \<Rightarrow> string set \<Rightarrow> chunk \<Rightarrow> bool" where
  \<comment> \<open>a chunk is not empty, and exceeds the size only as one sentence of \<open>S\<close>\<close>
  "within_budget sz S c \<longleftrightarrow>
     c_text c \<noteq> [] \<and>
     (sz < int (length (str_split (c_text c))) \<longrightarrow>
        c_text c \<in> S \<and>
        c_metadata c = MultiSentenceMeta 1 (int (length (str_split (c_text c)))))"

definition buffer_ok :: "int \<Rightarrow> string set \<Rightarrow> string list \<Rightarrow> int \<Rightarrow> bool" where
  \<comment> \<open>the invariant of \<open>current_chunk\<close> and \<open>current_size\<close> in the loop over the sentences\<close>
  "buffer_ok sz S current_chunk current_size \<longleftrightarrow>
     set current_chunk \<subseteq> S \<and> (\<forall>s \<in> set current_chunk. s \<noteq> []) \<and>
     current_size = sum_list (map (\<lambda>s. int (length (str_split s))) current_chunk) \<and>
     (length current_chunk \<le> 1 \<or> current_size \<le> sz)"

definition offsets_ok :: "chunk list \<Rightarrow> int \<Rightarrow> bool" where
  \<comment> \<open>the invariant of \<open>chunks\<close> and \<open>current_position\<close>\<close>
  "offsets_ok chunks current_position \<longleftrightarrow>
     (\<forall>c \<in> set chunks. end_char c = start_char c + int (length (c_text c))
                      \<and> start_char c \<le> current_position) \<and>
     sorted (map start_char chunks)"

definition n_windows :: "int \<Rightarrow> int \<Rightarrow> int \<Rightarrow> nat" where
  \<comment> \<open>number of loop iterations from \<open>start\<close> with a positive \<open>step\<close>\<close>
  "n_windows len start step =
     (if start < len then nat ((len - start + step - 1) div step) else 0)"

section \<open>Facts about the fixed-size chunker\<close>

lemma n_windows_done: "\<not> start < len \<Longrightarrow> n_windows len start step = 0"
  by (simp add: n_windows_def)

lemma n_windows_step:
  assumes "0 < step" "start < len"
  shows "n_windows len start step = Suc (n_windows len (start + step) step)"
proof (cases "start + step < len")
  case True
  have "(len - start + step - 1) div step = (len - (start + step) + step - 1) div step + 1"
  proof -
    have "len - start + step - 1 = (len - (start + step) + step - 1) + step" by simp
    then show ?thesis using assms(1) by (metis div_add_self2 less_irrefl)
  qed
  moreover have "0 \<le> (len - (start + step) + step - 1) div step"
    using True assms(1) by (simp add: pos_imp_zdiv_nonneg_iff)
  ultimately show ?thesis using True assms by (simp add: n_windows_def nat_add_distrib)
next
  case False
  then have "step \<le> len - start + step - 1" "len - start + step - 1 < step + step"
    using assms by auto
  then have "(len - start + step - 1) div step = 1"
    using assms(1) by (intro int_div_pos_eq[where r = "len - start - 1"]) auto
  then show ?thesis using False assms by (simp add: n_windows_def)
qed

lemma fixed_loop_closed:
  assumes "0 < chunk_size - overlap"
  shows "fixed_loop chunk_size overlap words start idx acc =
         Some (acc @ map (\<lambda>k. fixed_chunk chunk_size words
                                 (start + int k * (chunk_size - overlap)) (idx + int k))
                         [0..<n_windows (int (length words)) start (chunk_size - overlap)])"
proof (induction "nat (int (length words) - start)" arbitrary: start idx acc rule: less_induct)
  case less
  let ?step = "chunk_size - overlap"
  show ?case
  proof (cases "start < int (length words)")
    case False
    then show ?thesis
      by (subst fixed_loop.simps) (simp add: n_windows_done)
  next
    case True
    have dec: "nat (int (length words) - (start + ?step)) < nat (int (length words) - start)"
      using True assms by linarith
    have nw: "n_windows (int (length words)) start ?step =
              Suc (n_windows (int (length words)) (start + ?step) ?step)"
      using n_windows_step[OF assms True] .
    have shift: "map (\<lambda>k. fixed_chunk chunk_size words (start + int k * ?step) (idx + int k))
                   [0..<Suc n]
               = fixed_chunk chunk_size words start idx #
                 map (\<lambda>k. fixed_chunk chunk_size words (start + ?step + int k * ?step)
                             (idx + 1 + int k)) [0..<n]" for n
    proof -
      have "[0..<Suc n] = 0 # map Suc [0..<n]"
        by (simp add: upt_conv_Cons map_Suc_upt del: upt_Suc)
      then show ?thesis
        by (simp add: o_def algebra_simps del: upt_Suc)
    qed
    show ?thesis
      by (subst fixed_loop.simps) (simp add: True less.hyps[OF dec] nw shift del: upt_Suc)
  qed
qed

lemma fixed_loop_diverges:
  assumes "chunk_size - overlap \<le> 0" "start < int (length words)"
  shows "fixed_loop chunk_size overlap words start idx acc = None"
proof -
  have "\<not> (cs - ov \<le> 0 \<and> st < int (length ws))"
    if "fixed_loop cs ov ws st i a = Some y" for cs ov ws st i a y
    by (rule fixed_loop.raw_induct
          [where P = "\<lambda>cs ov ws st i a y. \<not> (cs - ov \<le> 0 \<and> st < int (length ws))", OF _ that])
       (fastforce split: if_splits)
  then show ?thesis using assms by (cases "fixed_loop chunk_size overlap words start idx acc") auto
qed

lemma n_windows_less:
  assumes "0 < step"
  shows "k < n_windows len start step \<longleftrightarrow> start + int k * step < len"
proof (induction k arbitrary: start)
  case 0
  show ?case
    using n_windows_step[OF assms, of start len] n_windows_done[of start len step]
    by (cases "start < len") auto
next
  case (Suc k)
  show ?case
  proof (cases "start < len")
    case True
    have "start + step + int k * step = start + int (Suc k) * step"
      by (simp add: algebra_simps)
    then show ?thesis
      using n_windows_step[OF assms True] Suc[of "start + step"] by (simp add: algebra_simps)
  next
    case False
    have "0 \<le> int (Suc k) * step" using assms by simp
    then show ?thesis using False n_windows_done[OF False, of step] by linarith
  qed
qed

lemma fixed_chunking_closed:
  assumes "str_split text \<noteq> []" "default_overlap self < default_chunk_size self"
  shows "fixed_chunking self text =
         Some (map (\<lambda>k. fixed_chunk (default_chunk_size self) (str_split text)
                          (int k * (default_chunk_size self - default_overlap self)) (int k))
                 [0..<n_windows (int (length (str_split text))) 0
                        (default_chunk_size self - default_overlap self)])"
  using assms fixed_loop_closed[where overlap = "default_overlap self"
      and chunk_size = "default_chunk_size self" and words = "str_split text"
      and start = 0 and idx = 0 and acc = "[]"]
  by (simp add: fixed_chunking_def Let_def)

lemma fixed_chunking_empty: "str_split text = [] \<Longrightarrow> fixed_chunking self text = Some []"
  by (simp add: fixed_chunking_def Let_def)

lemma fixed_chunking_diverges:
  assumes "str_split text \<noteq> []" "default_chunk_size self \<le> default_overlap self"
  shows "fixed_chunking self text = None"
  using assms fixed_loop_diverges[where overlap = "default_overlap self"
      and chunk_size = "default_chunk_size self" and words = "str_split text"
      and start = 0 and idx = 0 and acc = "[]"]
  by (simp add: fixed_chunking_def Let_def)

text \<open>
  C2.  The claim: \<open>fixed_chunking\<close> terminates when the overlap is strictly less than the chunk
  size, and a configuration with \<open>overlap \<ge> size\<close> is rejected as a configuration error
  instead of looping.  The first half holds (\<open>fixed_chunking_closed\<close> gives the result of the
  loop for every text with a word, \<open>fixed_chunking_empty\<close> for the others).  The second does
  not: nothing checks the configuration, and with \<open>size = overlap = 10\<close> the loop over the
  one-word text \<open>a\<close> never advances and never returns.
\<close>

theorem fixed_chunking_overlap_not_rejected:
  "fixed_chunking \<lparr>default_chunk_size = 10, default_overlap = 10\<rparr> ''a'' = None"
  by (rule fixed_chunking_diverges) (simp_all add: str_split_def isspace_def)



lemma py_slice_in_range:
  "0 \<le> a \<Longrightarrow> a \<le> b \<Longrightarrow> b \<le> int (length xs) \<Longrightarrow>
   py_slice xs a b = take (nat (b - a)) (drop (nat a) xs)"
  by (simp add: py_slice_def slice_bound_def Let_def)

lemma fixed_chunk_sel:
  "c_index (fixed_chunk sz ws st i) = i"
  "c_text (fixed_chunk sz ws st i) = str_join '' '' (py_slice ws st (min (st + sz) (int (length ws))))"
  "start_char (fixed_chunk sz ws st i) = int (length (str_join '' '' (py_slice ws 0 st)))"
  "end_char (fixed_chunk sz ws st i)
     = start_char (fixed_chunk sz ws st i) + int (length (c_text (fixed_chunk sz ws st i)))"
  by (simp_all add: fixed_chunk_def Let_def)

lemma window_overlap:
  fixes ws :: "'a list"
  assumes ov: "0 \<le> ov" and st: "0 < step" and lo: "0 \<le> lo"
    and full: "lo + (step + ov) \<le> int (length ws)"
    and hi': "hi' = min (lo + step + (step + ov)) (int (length ws))"
  shows "card ({lo..<lo + (step + ov)} \<inter> {lo + step..<hi'}) = nat ov"
    and "drop (nat step) (py_slice ws lo (lo + (step + ov)))
           = take (nat ov) (py_slice ws (lo + step) hi')"
    and "length (take (nat ov) (py_slice ws (lo + step) hi')) = nat ov"
proof -
  have b: "lo + (step + ov) \<le> hi'" "hi' \<le> int (length ws)" "lo + step \<le> hi'"
    using assms by auto
  have "{lo..<lo + (step + ov)} \<inter> {lo + step..<hi'} = {lo + step..<lo + (step + ov)}"
    using b st by auto
  then show "card ({lo..<lo + (step + ov)} \<inter> {lo + step..<hi'}) = nat ov"
    by simp
  have l: "py_slice ws lo (lo + (step + ov)) = take (nat (step + ov)) (drop (nat lo) ws)"
    using py_slice_in_range[of lo "lo + (step + ov)" ws] lo st ov full by simp
  have r: "py_slice ws (lo + step) hi' = take (nat (hi' - (lo + step))) (drop (nat (lo + step)) ws)"
    using py_slice_in_range[of "lo + step" hi' ws] lo st b by simp
  have d: "nat step + nat lo = nat (lo + step)"
    using lo st by (simp add: nat_add_distrib)
  have m: "min (nat ov) (nat (hi' - (lo + step))) = nat ov"
    using b by simp
  have n: "nat (step + ov) - nat step = nat ov"
    using ov st by simp
  show "drop (nat step) (py_slice ws lo (lo + (step + ov)))
           = take (nat ov) (py_slice ws (lo + step) hi')"
    by (simp add: l r drop_take d m n)
  have "nat ov \<le> length (drop (nat (lo + step)) ws)"
    using full lo st ov by simp
  then show "length (take (nat ov) (py_slice ws (lo + step) hi')) = nat ov"
    using m by (simp add: r)
qed

lemma words20:
  "str_split ''w1 w2 w3 w4 w5 w6 w7 w8 w9 w10 w11 w12 w13 w14 w15 w16 w17 w18 w19 w20''
   = [''w1'', ''w2'', ''w3'', ''w4'', ''w5'', ''w6'', ''w7'', ''w8'', ''w9'', ''w10'',
      ''w11'', ''w12'', ''w13'', ''w14'', ''w15'', ''w16'', ''w17'', ''w18'', ''w19'', ''w20'']"
  by (simp add: str_split_def isspace_def)

lemma upt_3: "[0..<3] = [0, 1, 2]"
  by (simp add: upt_rec)

lemma fixed_chunking_20_words:
  "map_option (map (\<lambda>c. (c_index c, c_text c)))
     (fixed_chunking \<lparr>default_chunk_size = 10, default_overlap = 2\<rparr>
        ''w1 w2 w3 w4 w5 w6 w7 w8 w9 w10 w11 w12 w13 w14 w15 w16 w17 w18 w19 w20'')
   = Some [(0, ''w1 w2 w3 w4 w5 w6 w7 w8 w9 w10''),
           (1, ''w9 w10 w11 w12 w13 w14 w15 w16 w17 w18''),
           (2, ''w17 w18 w19 w20'')]"
proof -
  have n: "n_windows 20 0 8 = 3" by (simp add: n_windows_def)
  show ?thesis
    by (subst fixed_chunking_closed)
       (simp_all add: words20 n upt_3 fixed_chunk_def py_slice_def slice_bound_def Let_def)
qed

text \<open>
  C4.  The claim: for every non-empty text and \<open>overlap < size\<close>, \<open>fixed_chunking\<close> produces at
  least one chunk, with indices \<open>0..n-1\<close>, consecutive chunks sharing exactly \<open>overlap\<close> words
  when the input fills the windows.  A text of whitespace only is not empty and yields no
  chunk, and with a negative overlap consecutive chunks share no word: with \<open>size = 2\<close> and
  \<open>overlap = -1\<close> the text \<open>a b c d e\<close> gives the chunks \<open>a b\<close> and \<open>d e\<close>.
\<close>

theorem fixed_chunking_blank_text:
  "'' '' \<noteq> [] \<and> (2 :: int) < 10
   \<and> fixed_chunking \<lparr>default_chunk_size = 10, default_overlap = 2\<rparr> '' '' = Some []
   \<and> (-1 :: int) < 2
   \<and> map_option (map c_text)
        (fixed_chunking \<lparr>default_chunk_size = 2, default_overlap = -1\<rparr> ''a b c d e'')
      = Some [''a b'', ''d e'']"
proof -
  have b: "str_split '' '' = []" by (simp add: str_split_def isspace_def)
  have w: "str_split ''a b c d e'' = [''a'', ''b'', ''c'', ''d'', ''e'']"
    by (simp add: str_split_def isspace_def)
  have n: "n_windows 5 0 3 = 2" by (simp add: n_windows_def)
  have "map_option (map c_text)
        (fixed_chunking \<lparr>default_chunk_size = 2, default_overlap = -1\<rparr> ''a b c d e'')
      = Some [''a b'', ''d e'']"
    by (subst fixed_chunking_closed)
       (simp_all add: w n upt_rec fixed_chunk_def py_slice_def slice_bound_def Let_def)
  then show ?thesis using fixed_chunking_empty[OF b] by simp
qed


text \<open>
  C4, as amended.  For every text with at least one word and \<open>0 \<le> overlap < size\<close>,
  \<open>fixed_chunking\<close> returns at least one chunk; the indices are \<open>0..n-1\<close>; chunk \<open>k\<close> is the
  words of the window \<open>[k * (size - overlap) : min(k * (size - overlap) + size, len)]\<close> joined
  by single spaces; when window \<open>k\<close> is full and a chunk follows, the two windows have
  exactly \<open>overlap\<close> word indices in common, the last \<open>overlap\<close> words of the one being the
  first \<open>overlap\<close> words of the other; and 20 words with \<open>size = 10\<close>, \<open>overlap = 2\<close> give the
  3 chunks of the words \<open>[0:10]\<close>, \<open>[8:18]\<close>, \<open>[16:20]\<close>.
\<close>

theorem fixed_chunking_windows:
  assumes "str_split text \<noteq> []"
    and "0 \<le> default_overlap self"
    and "default_overlap self < default_chunk_size self"
  shows "(\<exists>cs. fixed_chunking self text = Some cs \<and> cs \<noteq> []
          \<and> map c_index cs = map int [0..<length cs]
          \<and> (\<forall>k < length cs.
                c_text (cs ! k)
                  = str_join '' '' (py_slice (str_split text)
                      (fst (window self (str_split text) k))
                      (snd (window self (str_split text) k))))
          \<and> (\<forall>k. Suc k < length cs
                  \<and> snd (window self (str_split text) k) - fst (window self (str_split text) k)
                      = default_chunk_size self
                \<longrightarrow> card ({fst (window self (str_split text) k)
                            ..< snd (window self (str_split text) k)}
                          \<inter> {fst (window self (str_split text) (Suc k))
                               ..< snd (window self (str_split text) (Suc k))})
                      = nat (default_overlap self)
                  \<and> drop (nat (default_chunk_size self - default_overlap self))
                       (py_slice (str_split text) (fst (window self (str_split text) k))
                          (snd (window self (str_split text) k)))
                    = take (nat (default_overlap self))
                        (py_slice (str_split text)
                           (fst (window self (str_split text) (Suc k)))
                           (snd (window self (str_split text) (Suc k))))
                  \<and> length (take (nat (default_overlap self))
                        (py_slice (str_split text)
                           (fst (window self (str_split text) (Suc k)))
                           (snd (window self (str_split text) (Suc k)))))
                    = nat (default_overlap self)))
     \<and> map_option (map (\<lambda>c. (c_index c, c_text c)))
         (fixed_chunking \<lparr>default_chunk_size = 10, default_overlap = 2\<rparr>
            ''w1 w2 w3 w4 w5 w6 w7 w8 w9 w10 w11 w12 w13 w14 w15 w16 w17 w18 w19 w20'')
       = Some [(0, ''w1 w2 w3 w4 w5 w6 w7 w8 w9 w10''),
               (1, ''w9 w10 w11 w12 w13 w14 w15 w16 w17 w18''),
               (2, ''w17 w18 w19 w20'')]"
proof -
  let ?ws = "str_split text"
  let ?sz = "default_chunk_size self"
  let ?ov = "default_overlap self"
  let ?step = "?sz - ?ov"
  let ?len = "int (length ?ws)"
  let ?n = "n_windows ?len 0 ?step"
  let ?cs = "map (\<lambda>k. fixed_chunk ?sz ?ws (int k * ?step) (int k)) [0..<?n]"
  have st: "0 < ?step" using assms(3) by simp
  have sz: "?sz = ?step + ?ov" by simp
  have res: "fixed_chunking self text = Some ?cs"
    using assms(1,3) by (rule fixed_chunking_closed)
  have n0: "0 < ?n"
    using n_windows_less[OF st, of 0 ?len 0] assms(1) by simp
  have ne: "?cs \<noteq> []" using n0 by simp
  have ix: "map c_index ?cs = map int [0..<length ?cs]"
    by (simp add: fixed_chunk_sel o_def)
  have tx: "\<forall>k < length ?cs.
              c_text (?cs ! k)
                = str_join '' '' (py_slice ?ws (fst (window self ?ws k)) (snd (window self ?ws k)))"
    by (simp add: fixed_chunk_sel window_def Let_def)
  have sh: "card ({fst (window self ?ws k) ..< snd (window self ?ws k)}
                   \<inter> {fst (window self ?ws (Suc k)) ..< snd (window self ?ws (Suc k))})
              = nat ?ov
          \<and> drop (nat ?step)
               (py_slice ?ws (fst (window self ?ws k)) (snd (window self ?ws k)))
            = take (nat ?ov)
                (py_slice ?ws (fst (window self ?ws (Suc k))) (snd (window self ?ws (Suc k))))
          \<and> length (take (nat ?ov)
                (py_slice ?ws (fst (window self ?ws (Suc k))) (snd (window self ?ws (Suc k)))))
            = nat ?ov"
    if k: "Suc k < length ?cs"
      and f: "snd (window self ?ws k) - fst (window self ?ws k) = ?sz" for k
  proof -
    let ?lo = "int k * ?step"
    have lo: "0 \<le> ?lo" using st by simp
    have full: "?lo + (?step + ?ov) \<le> ?len"
      using f by (simp add: window_def Let_def min_def split: if_splits)
    have w: "window self ?ws k = (?lo, ?lo + (?step + ?ov))"
      using full by (simp add: window_def Let_def)
    have w': "window self ?ws (Suc k)
                = (?lo + ?step, min (?lo + ?step + (?step + ?ov)) ?len)"
      by (simp add: window_def Let_def algebra_simps)
    show ?thesis
      unfolding w w' fst_conv snd_conv
      using window_overlap[OF assms(2) st lo full refl] by blast
  qed
  have general: "\<exists>cs. fixed_chunking self text = Some cs \<and> cs \<noteq> []
          \<and> map c_index cs = map int [0..<length cs]
          \<and> (\<forall>k < length cs.
                c_text (cs ! k)
                  = str_join '' '' (py_slice ?ws (fst (window self ?ws k))
                      (snd (window self ?ws k))))
          \<and> (\<forall>k. Suc k < length cs
                  \<and> snd (window self ?ws k) - fst (window self ?ws k) = ?sz
                \<longrightarrow> card ({fst (window self ?ws k) ..< snd (window self ?ws k)}
                          \<inter> {fst (window self ?ws (Suc k)) ..< snd (window self ?ws (Suc k))})
                      = nat ?ov
                  \<and> drop (nat ?step)
                       (py_slice ?ws (fst (window self ?ws k)) (snd (window self ?ws k)))
                    = take (nat ?ov)
                        (py_slice ?ws (fst (window self ?ws (Suc k)))
                           (snd (window self ?ws (Suc k))))
                  \<and> length (take (nat ?ov)
                        (py_slice ?ws (fst (window self ?ws (Suc k)))
                           (snd (window self ?ws (Suc k)))))
                    = nat ?ov)"
    using res ne ix tx sh by (intro exI[of _ ?cs]) blast
  show ?thesis by (rule conjI[OF general fixed_chunking_20_words])
qed


theorem fixed_chunking_windows_witness:
  "str_split ''w1 w2 w3 w4 w5 w6 w7 w8 w9 w10 w11 w12 w13 w14 w15 w16 w17 w18 w19 w20'' \<noteq> []
   \<and> (0 :: int) \<le> 2 \<and> (2 :: int) < 10
   \<and> (\<exists>cs. fixed_chunking \<lparr>default_chunk_size = 10, default_overlap = 2\<rparr>
              ''w1 w2 w3 w4 w5 w6 w7 w8 w9 w10 w11 w12 w13 w14 w15 w16 w17 w18 w19 w20''
            = Some cs
          \<and> length cs = 3 \<and> map c_index cs = [0, 1, 2])
   \<and> card ({0 ..< 10 :: int} \<inter> {8 ..< 18}) = 2
   \<and> drop 8 [''w1'', ''w2'', ''w3'', ''w4'', ''w5'', ''w6'', ''w7'', ''w8'', ''w9'', ''w10'']
       = take 2 [''w9'', ''w10'', ''w11'', ''w12'', ''w13'', ''w14'', ''w15'', ''w16'',
                 ''w17'', ''w18'']"
proof -
  let ?S = "\<lparr>default_chunk_size = 10, default_overlap = 2\<rparr>"
  let ?t = "''w1 w2 w3 w4 w5 w6 w7 w8 w9 w10 w11 w12 w13 w14 w15 w16 w17 w18 w19 w20''"
  have h1: "str_split ?t \<noteq> []" by (simp add: words20)
  have h2: "0 \<le> default_overlap ?S" by simp
  have h3: "default_overlap ?S < default_chunk_size ?S" by simp
  from fixed_chunking_windows[OF h1 h2 h3]
  obtain cs where cs: "fixed_chunking ?S ?t = Some cs"
      "map c_index cs = map int [0..<length cs]"
    and sh: "\<And>k. Suc k < length cs
                  \<and> snd (window ?S (str_split ?t) k) - fst (window ?S (str_split ?t) k)
                      = default_chunk_size ?S
              \<Longrightarrow> card ({fst (window ?S (str_split ?t) k) ..< snd (window ?S (str_split ?t) k)}
                      \<inter> {fst (window ?S (str_split ?t) (Suc k))
                           ..< snd (window ?S (str_split ?t) (Suc k))})
                    = nat (default_overlap ?S)"
    by blast
  have len: "length cs = 3"
    using fixed_chunking_20_words cs(1) by auto
  have ix: "map c_index cs = [0, 1, 2]"
    using cs(2) by (simp add: len upt_3)
  have w0: "window ?S (str_split ?t) 0 = (0, 10)"
    by (simp add: window_def words20)
  have w1: "window ?S (str_split ?t) (Suc 0) = (8, 18)"
    by (simp add: window_def words20)
  have "card ({0 ..< 10 :: int} \<inter> {8 ..< 18}) = 2"
    using sh[of 0] by (simp add: len w0 w1)
  then show ?thesis using h1 cs(1) len ix by simp
qed

section \<open>Facts about the dynamic chunker\<close>

lemma isspace_space: "isspace CHR '' ''"
  by (simp add: isspace_def)

lemma split_words_append_space:
  "split_words cur (a @ CHR '' '' # b) = split_words cur a @ split_words [] b"
  by (induction a arbitrary: cur) (simp_all add: isspace_space)

lemma str_split_join: "str_split (str_join '' '' ss) = concat (map str_split ss)"
proof (induction "'' ''" ss rule: str_join.induct)
  case 1
  show ?case by (simp add: str_split_def)
next
  case (2 x)
  show ?case by simp
next
  case (3 x y ys)
  have "str_split (x @ '' '' @ str_join '' '' (y # ys))
          = str_split x @ str_split (str_join '' '' (y # ys))"
    using split_words_append_space[of "[]" x] by (simp add: str_split_def)
  then show ?case using 3 by simp
qed

lemma word_count_join:
  "int (length (str_split (str_join '' '' ss)))
     = sum_list (map (\<lambda>s. int (length (str_split s))) ss)"
  by (simp add: str_split_join length_concat) (induction ss, simp_all)

lemma str_join_nonempty: "ss \<noteq> [] \<Longrightarrow> \<forall>s \<in> set ss. s \<noteq> [] \<Longrightarrow> str_join sep ss \<noteq> []"
  by (induction sep ss rule: str_join.induct) simp_all

lemma str_strip_nonempty: "str_strip s \<noteq> [] \<Longrightarrow> s \<noteq> []"
  by (auto simp: str_strip_def)

lemma split_sentences_nonempty: "s \<in> set (split_sentences tok para) \<Longrightarrow> s \<noteq> []"
  by (auto simp: split_sentences_def split: option.splits)

lemma split_paragraphs_nonempty: "p \<in> set (split_paragraphs text) \<Longrightarrow> p \<noteq> []"
  by (auto simp: split_paragraphs_def)

lemma str_join_snoc:
  "str_join sep (ys @ [y]) = (if ys = [] then y else str_join sep ys @ sep @ y)"
  by (induction sep ys rule: str_join.induct) simp_all

lemma length_join_take_mono:
  "a \<le> b \<Longrightarrow> length (str_join sep (take a xs)) \<le> length (str_join sep (take b xs))"
proof (rule lift_Suc_mono_le[of "\<lambda>n. length (str_join sep (take n xs))"])
  fix n
  show "length (str_join sep (take n xs)) \<le> length (str_join sep (take (Suc n) xs))"
  proof (cases "n < length xs")
    case True
    then show ?thesis by (simp add: take_Suc_conv_app_nth str_join_snoc)
  next
    case False
    then show ?thesis by simp
  qed
qed

lemma multi_sentence_chunk_within:
  assumes "buffer_ok sz S cc csz" "cc \<noteq> []"
  shows "within_budget sz S (multi_sentence_chunk cc csz ci cp)"
proof -
  have ne: "str_join '' '' cc \<noteq> []"
    using assms by (intro str_join_nonempty) (simp_all add: buffer_ok_def)
  have wc: "int (length (str_split (str_join '' '' cc))) = csz"
    using assms(1) by (simp add: buffer_ok_def word_count_join)
  show ?thesis
  proof (cases "sz < csz")
    case False
    then show ?thesis
      using ne wc by (simp add: within_budget_def multi_sentence_chunk_def Let_def)
  next
    case True
    then have "length cc \<le> 1" using assms(1) by (auto simp: buffer_ok_def)
    then obtain s where s: "cc = [s]" using assms(2) by (cases cc) auto
    then have "s \<in> S" using assms(1) by (simp add: buffer_ok_def)
    then show ?thesis
      using ne wc s by (simp add: within_budget_def multi_sentence_chunk_def Let_def)
  qed
qed

lemma sentence_step_within:
  assumes "\<forall>c \<in> set chunks. within_budget sz S c" "buffer_ok sz S cc csz"
    and "s \<in> S" "s \<noteq> []"
    and "sentence_step sz (chunks, ci, cp, cc, csz) s = (chunks', ci', cp', cc', csz')"
  shows "(\<forall>c \<in> set chunks'. within_budget sz S c) \<and> buffer_ok sz S cc' csz' \<and> cc' \<noteq> []"
proof (cases "csz + int (length (str_split s)) > sz \<and> cc \<noteq> []")
  case True
  then have e: "chunks' = chunks @ [multi_sentence_chunk cc csz ci cp]"
    "cc' = [s]" "csz' = int (length (str_split s))"
    using assms(5) by (auto simp: Let_def)
  have "within_budget sz S (multi_sentence_chunk cc csz ci cp)"
    using assms(2) True by (intro multi_sentence_chunk_within) auto
  then show ?thesis using assms(1,3,4) by (auto simp: e buffer_ok_def)
next
  case False
  then have e: "chunks' = chunks" "cc' = cc @ [s]" "csz' = csz + int (length (str_split s))"
    using assms(5) by (auto simp: Let_def)
  show ?thesis
    using assms(1-4) False by (cases cc) (auto simp: e buffer_ok_def)
qed

lemma sentences_loop_within:
  assumes "\<forall>c \<in> set chunks. within_budget sz S c" "buffer_ok sz S cc csz"
    and "set ss \<subseteq> S" "\<forall>s \<in> set ss. s \<noteq> []"
    and "foldl (sentence_step sz) (chunks, ci, cp, cc, csz) ss = (chunks', ci', cp', cc', csz')"
  shows "(\<forall>c \<in> set chunks'. within_budget sz S c) \<and> buffer_ok sz S cc' csz'"
  using assms
proof (induction ss arbitrary: chunks ci cp cc csz)
  case Nil
  then show ?case by simp
next
  case (Cons s ss)
  obtain c1 i1 p1 b1 z1 where
    st: "sentence_step sz (chunks, ci, cp, cc, csz) s = (c1, i1, p1, b1, z1)"
    by (metis prod_cases5)
  have "(\<forall>c \<in> set c1. within_budget sz S c) \<and> buffer_ok sz S b1 z1 \<and> b1 \<noteq> []"
    by (rule sentence_step_within[OF _ _ _ _ st]) (use Cons.prems(1-4) in auto)
  moreover have "foldl (sentence_step sz) (c1, i1, p1, b1, z1) ss = (chunks', ci', cp', cc', csz')"
    using Cons.prems(5) st by (simp del: sentence_step.simps)
  ultimately show ?case using Cons.IH Cons.prems(3,4) by auto
qed

lemma buffer_ok_empty: "buffer_ok sz S [] 0"
  by (simp add: buffer_ok_def)

lemma paragraph_step_within:
  assumes "\<forall>c \<in> set chunks. within_budget (default_chunk_size self) S c"
    and "set (split_sentences tok para) \<subseteq> S"
    and "paragraph_step self tok (chunks, ci, cp) para = (chunks', ci', cp')"
  shows "\<forall>c \<in> set chunks'. within_budget (default_chunk_size self) S c"
proof -
  let ?sz = "default_chunk_size self"
  consider (blank) "str_strip para = []"
    | (sent) "str_strip para \<noteq> []" "int (length (str_split para)) > ?sz"
    | (small) "str_strip para \<noteq> []" "\<not> int (length (str_split para)) > ?sz"
    by blast
  then show ?thesis
  proof cases
    case blank
    then show ?thesis using assms by simp
  next
    case small
    then have "chunks' = chunks @ [paragraph_chunk para ci cp]"
      using assms(3) by simp
    moreover have "within_budget ?sz S (paragraph_chunk para ci cp)"
      using small str_strip_nonempty[of para]
      by (simp add: within_budget_def paragraph_chunk_def)
    ultimately show ?thesis using assms(1) by simp
  next
    case sent
    obtain c1 i1 p1 b1 z1 where
      f: "foldl (sentence_step ?sz) (chunks, ci, cp, [], 0) (split_sentences tok para)
            = (c1, i1, p1, b1, z1)"
      by (metis prod_cases5)
    have inv: "(\<forall>c \<in> set c1. within_budget ?sz S c) \<and> buffer_ok ?sz S b1 z1"
      using assms(1,2) f split_sentences_nonempty
      by (intro sentences_loop_within[OF _ buffer_ok_empty _ _ f]) auto
    show ?thesis
    proof (cases "b1 = []")
      case True
      then have "chunks' = c1" using assms(3) sent f by simp
      then show ?thesis using inv by simp
    next
      case False
      then have "chunks' = c1 @ [multi_sentence_chunk b1 z1 i1 p1]"
        using assms(3) sent f by simp
      moreover have "within_budget ?sz S (multi_sentence_chunk b1 z1 i1 p1)"
        using inv False by (intro multi_sentence_chunk_within) auto
      ultimately show ?thesis using inv by simp
    qed
  qed
qed

lemma paragraphs_loop_within:
  assumes "\<forall>c \<in> set chunks. within_budget (default_chunk_size self) S c"
    and "\<forall>para \<in> set ps. set (split_sentences tok para) \<subseteq> S"
  shows "\<forall>c \<in> set (fst (foldl (paragraph_step self tok) (chunks, ci, cp) ps)).
           within_budget (default_chunk_size self) S c"
  using assms
proof (induction ps arbitrary: chunks ci cp)
  case Nil
  then show ?case by simp
next
  case (Cons para ps)
  obtain c1 i1 p1 where st: "paragraph_step self tok (chunks, ci, cp) para = (c1, i1, p1)"
    by (metis prod_cases3)
  have "\<forall>c \<in> set c1. within_budget (default_chunk_size self) S c"
    by (rule paragraph_step_within[OF _ _ st]) (use Cons.prems in auto)
  then show ?case
    using Cons.IH[of c1 i1 p1] Cons.prems(2) st by (simp del: paragraph_step.simps)
qed

lemma offsets_ok_snoc:
  assumes "offsets_ok chunks pos" "start_char c = pos"
    and "end_char c = pos + int (length (c_text c))" "pos \<le> pos'"
  shows "offsets_ok (chunks @ [c]) pos'"
  using assms by (fastforce simp: offsets_ok_def sorted_append)

lemma multi_sentence_chunk_offsets:
  "start_char (multi_sentence_chunk cc csz ci cp) = cp"
  "end_char (multi_sentence_chunk cc csz ci cp)
     = cp + int (length (c_text (multi_sentence_chunk cc csz ci cp)))"
  "c_text (multi_sentence_chunk cc csz ci cp) = str_join '' '' cc"
  by (simp_all add: multi_sentence_chunk_def Let_def)

lemma sentence_step_offsets:
  assumes "offsets_ok chunks cp"
    and "sentence_step sz (chunks, ci, cp, cc, csz) s = (chunks', ci', cp', cc', csz')"
  shows "offsets_ok chunks' cp'"
proof (cases "csz + int (length (str_split s)) > sz \<and> cc \<noteq> []")
  case True
  then have e: "chunks' = chunks @ [multi_sentence_chunk cc csz ci cp]"
    "cp' = cp + int (length (str_join '' '' cc)) + 1"
    using assms(2) by (auto simp: Let_def)
  show ?thesis
    unfolding e
    by (rule offsets_ok_snoc[OF assms(1)]) (simp_all add: multi_sentence_chunk_offsets)
next
  case False
  then have "chunks' = chunks" "cp' = cp"
    using assms(2) by (auto simp: Let_def)
  then show ?thesis using assms(1) by simp
qed

lemma sentences_loop_offsets:
  assumes "offsets_ok chunks cp"
    and "foldl (sentence_step sz) (chunks, ci, cp, cc, csz) ss = (chunks', ci', cp', cc', csz')"
  shows "offsets_ok chunks' cp'"
  using assms
proof (induction ss arbitrary: chunks ci cp cc csz)
  case Nil
  then show ?case by simp
next
  case (Cons s ss)
  obtain c1 i1 p1 b1 z1 where
    st: "sentence_step sz (chunks, ci, cp, cc, csz) s = (c1, i1, p1, b1, z1)"
    by (metis prod_cases5)
  have "offsets_ok c1 p1"
    by (rule sentence_step_offsets[OF Cons.prems(1) st])
  moreover have "foldl (sentence_step sz) (c1, i1, p1, b1, z1) ss = (chunks', ci', cp', cc', csz')"
    using Cons.prems(2) st by (simp del: sentence_step.simps)
  ultimately show ?case by (rule Cons.IH)
qed

lemma paragraph_step_offsets:
  assumes "offsets_ok chunks cp"
    and "paragraph_step self tok (chunks, ci, cp) para = (chunks', ci', cp')"
  shows "offsets_ok chunks' cp'"
proof -
  let ?sz = "default_chunk_size self"
  consider (blank) "str_strip para = []"
    | (sent) "str_strip para \<noteq> []" "int (length (str_split para)) > ?sz"
    | (small) "str_strip para \<noteq> []" "\<not> int (length (str_split para)) > ?sz"
    by blast
  then show ?thesis
  proof cases
    case blank
    then show ?thesis using assms by simp
  next
    case small
    then have e: "chunks' = chunks @ [paragraph_chunk para ci cp]"
      "cp' = cp + int (length para) + 1"
      using assms(2) by simp_all
    show ?thesis
      unfolding e
      by (rule offsets_ok_snoc[OF assms(1)]) (simp_all add: paragraph_chunk_def)
  next
    case sent
    obtain c1 i1 p1 b1 z1 where
      f: "foldl (sentence_step ?sz) (chunks, ci, cp, [], 0) (split_sentences tok para)
            = (c1, i1, p1, b1, z1)"
      by (metis prod_cases5)
    have inv: "offsets_ok c1 p1"
      by (rule sentences_loop_offsets[OF assms(1) f])
    show ?thesis
    proof (cases "b1 = []")
      case True
      then have "chunks' = c1" "cp' = p1" using assms(2) sent f by simp_all
      then show ?thesis using inv by simp
    next
      case False
      then have e: "chunks' = c1 @ [multi_sentence_chunk b1 z1 i1 p1]"
        "cp' = p1 + int (length (str_join '' '' b1)) + 1"
        using assms(2) sent f by simp_all
      show ?thesis
        unfolding e
        by (rule offsets_ok_snoc[OF inv]) (simp_all add: multi_sentence_chunk_offsets)
    qed
  qed
qed

lemma paragraphs_loop_offsets:
  assumes "offsets_ok chunks cp"
    and "foldl (paragraph_step self tok) (chunks, ci, cp) ps = (chunks', ci', cp')"
  shows "offsets_ok chunks' cp'"
  using assms
proof (induction ps arbitrary: chunks ci cp)
  case Nil
  then show ?case by simp
next
  case (Cons para ps)
  obtain c1 i1 p1 where st: "paragraph_step self tok (chunks, ci, cp) para = (c1, i1, p1)"
    by (metis prod_cases3)
  have "offsets_ok c1 p1"
    by (rule paragraph_step_offsets[OF Cons.prems(1) st])
  moreover have "foldl (paragraph_step self tok) (c1, i1, p1) ps = (chunks', ci', cp')"
    using Cons.prems(2) st by (simp del: paragraph_step.simps)
  ultimately show ?case by (rule Cons.IH)
qed

lemma py_slice_prefix: "0 \<le> x \<Longrightarrow> py_slice ws 0 x = take (nat x) ws"
  by (simp add: py_slice_def slice_bound_def Let_def min_def)

lemma fixed_chunks_sorted:
  assumes "0 < step"
  shows "sorted (map start_char
           (map (\<lambda>k. fixed_chunk sz ws (int k * step) (int k)) [0..<n]))"
proof -
  have "start_char (fixed_chunk sz ws (int i * step) (int i))
          \<le> start_char (fixed_chunk sz ws (int j * step) (int j))" if "i \<le> j" for i j
  proof -
    have "nat (int i * step) \<le> nat (int j * step)"
      using that assms by (simp add: mult_right_mono nat_mono)
    then show ?thesis
      using assms by (simp add: fixed_chunk_sel py_slice_prefix length_join_take_mono)
  qed
  then show ?thesis
    by (simp add: sorted_iff_nth_mono del: upt_Suc)
qed

lemmas chunking_eval =
  dynamic_chunking_def split_paragraphs_def blank_gap_def str_strip_def isspace_def
  split_sentences_def is_terminator_def str_split_def multi_sentence_chunk_def
  paragraph_chunk_def Let_def

lemma dynamic_chunking_example:
  "dynamic_chunking \<lparr>default_chunk_size = 2, default_overlap = 0\<rparr> (\<lambda>_. None)
     ''One two three. Four.\<newline>\<newline>End''
   = [\<lparr>c_text = ''One two three'', c_index = 0, start_char = 0, end_char = 13,
       c_metadata = MultiSentenceMeta 1 3\<rparr>,
      \<lparr>c_text = ''Four'', c_index = 1, start_char = 14, end_char = 18,
       c_metadata = MultiSentenceMeta 1 1\<rparr>,
      \<lparr>c_text = ''End'', c_index = 2, start_char = 19, end_char = 22,
       c_metadata = ParagraphMeta 1\<rparr>]"
  by (simp add: chunking_eval)

text \<open>
  C5.  \<open>dynamic_chunking\<close> never emits a chunk whose text is empty, and a chunk has more
  words than the configured size only when it is a single sentence (of one of the
  paragraphs of the text, as the sentence splitter returns it) that has itself more words
  than the size; such a chunk is recorded with \<open>sentence_count = 1\<close>.  This holds for every
  text, every size and every sentence tokenizer.
\<close>

theorem dynamic_chunking_soft_cap:
  "\<forall>c \<in> set (dynamic_chunking self sent_tokenize text).
     c_text c \<noteq> [] \<and>
     (default_chunk_size self < int (length (str_split (c_text c))) \<longrightarrow>
        (\<exists>para \<in> set (split_paragraphs text).
           c_text c \<in> set (split_sentences sent_tokenize para)) \<and>
        c_metadata c = MultiSentenceMeta 1 (int (length (str_split (c_text c)))))"
proof -
  let ?S = "\<Union>para \<in> set (split_paragraphs text). set (split_sentences sent_tokenize para)"
  have "\<forall>c \<in> set (dynamic_chunking self sent_tokenize text).
          within_budget (default_chunk_size self) ?S c"
    unfolding dynamic_chunking_def by (rule paragraphs_loop_within) auto
  then show ?thesis by (auto simp: within_budget_def)
qed


theorem dynamic_chunking_soft_cap_witness:
  "map (\<lambda>c. (c_text c, c_metadata c))
     (dynamic_chunking \<lparr>default_chunk_size = 2, default_overlap = 0\<rparr> (\<lambda>_. None)
        ''One two three. Four.\<newline>\<newline>End'')
   = [(''One two three'', MultiSentenceMeta 1 3), (''Four'', MultiSentenceMeta 1 1),
      (''End'', ParagraphMeta 1)]
   \<and> split_sentences (\<lambda>_. None) ''One two three. Four.'' = [''One two three'', ''Four'']
   \<and> (2 :: int) < int (length (str_split ''One two three''))"
proof -
  let ?S = "\<lparr>default_chunk_size = 2, default_overlap = 0\<rparr>"
  let ?t = "''One two three. Four.\<newline>\<newline>End''"
  let ?c = "\<lparr>c_text = ''One two three'', c_index = 0, start_char = 0, end_char = 13,
             c_metadata = MultiSentenceMeta 1 3\<rparr>"
  have w: "str_split ''One two three'' = [''One'', ''two'', ''three'']"
    by (simp add: str_split_def isspace_def)
  have m: "?c \<in> set (dynamic_chunking ?S (\<lambda>_. None) ?t)"
    by (simp only: dynamic_chunking_example list.set insertI1)
  from dynamic_chunking_soft_cap[of ?S "\<lambda>_. None" ?t, rule_format, OF m]
  have "c_metadata ?c = MultiSentenceMeta 1 (int (length (str_split (c_text ?c))))"
    by (simp add: w)
  moreover have "split_sentences (\<lambda>_. None) ''One two three. Four.''
                   = [''One two three'', ''Four'']"
    by (simp add: chunking_eval)
  ultimately show ?thesis
    by (simp add: dynamic_chunking_example w)
qed

text \<open>
  C10.  For every chunk that \<open>fixed_chunking\<close> or \<open>dynamic_chunking\<close> emits, \<open>end_char\<close> is
  \<open>start_char\<close> plus the length of the chunk's text, and in each produced sequence the
  \<open>start_char\<close> values do not decrease.
\<close>

theorem chunk_offsets:
  "(\<forall>cs. fixed_chunking self text = Some cs \<longrightarrow>
       (\<forall>c \<in> set cs. end_char c = start_char c + int (length (c_text c)))
       \<and> sorted (map start_char cs))
   \<and> (\<forall>c \<in> set (dynamic_chunking self sent_tokenize text).
         end_char c = start_char c + int (length (c_text c)))
   \<and> sorted (map start_char (dynamic_chunking self sent_tokenize text))"
proof -
  have fx: "(\<forall>c \<in> set cs. end_char c = start_char c + int (length (c_text c)))
            \<and> sorted (map start_char cs)"
    if r: "fixed_chunking self text = Some cs" for cs
  proof (cases "str_split text = []")
    case True
    then show ?thesis using r fixed_chunking_empty[OF True, of self] by simp
  next
    case False
    show ?thesis
    proof (cases "default_overlap self < default_chunk_size self")
      case True
      have "cs = map (\<lambda>k. fixed_chunk (default_chunk_size self) (str_split text)
                          (int k * (default_chunk_size self - default_overlap self)) (int k))
                 [0..<n_windows (int (length (str_split text))) 0
                        (default_chunk_size self - default_overlap self)]"
        using r fixed_chunking_closed[OF False True] by simp
      moreover have "0 < default_chunk_size self - default_overlap self"
        using True by simp
      ultimately show ?thesis
        using fixed_chunks_sorted[of "default_chunk_size self - default_overlap self"]
        by (auto simp: fixed_chunk_sel(4))
    next
      case b: False
      then show ?thesis using r fixed_chunking_diverges[OF False, of self] by simp
    qed
  qed
  obtain c1 i1 p1 where
    f: "foldl (paragraph_step self sent_tokenize) ([], 0, 0) (split_paragraphs text)
          = (c1, i1, p1)"
    by (metis prod_cases3)
  have "offsets_ok [] 0" by (simp add: offsets_ok_def)
  then have "offsets_ok c1 p1" using f by (rule paragraphs_loop_offsets)
  moreover have "dynamic_chunking self sent_tokenize text = c1"
    by (simp add: dynamic_chunking_def f)
  ultimately have dy: "(\<forall>c \<in> set (dynamic_chunking self sent_tokenize text).
         end_char c = start_char c + int (length (c_text c)))
   \<and> sorted (map start_char (dynamic_chunking self sent_tokenize text))"
    by (simp add: offsets_ok_def)
  show ?thesis using fx dy by blast
qed


theorem chunk_offsets_witness:
  "map (\<lambda>c. (start_char c, end_char c))
     (dynamic_chunking \<lparr>default_chunk_size = 2, default_overlap = 0\<rparr> (\<lambda>_. None)
        ''One two three. Four.\<newline>\<newline>End'')
   = [(0, 13), (14, 18), (19, 22)]
   \<and> map_option (map (\<lambda>c. (start_char c, end_char c)))
       (fixed_chunking \<lparr>default_chunk_size = 2, default_overlap = 0\<rparr>
          ''One two three. Four.\<newline>\<newline>End'')
     = Some [(0, 7), (7, 19), (20, 23)]
   \<and> sorted [0, 7, 20 :: int] \<and> sorted [0, 14, 19 :: int]"
proof -
  let ?S = "\<lparr>default_chunk_size = 2, default_overlap = 0\<rparr>"
  let ?t = "''One two three. Four.\<newline>\<newline>End''"
  let ?cs = "[\<lparr>c_text = ''One two'', c_index = 0, start_char = 0, end_char = 7,
               c_metadata = FixedMeta 2 7\<rparr>,
              \<lparr>c_text = ''three. Four.'', c_index = 1, start_char = 7, end_char = 19,
               c_metadata = FixedMeta 2 12\<rparr>,
              \<lparr>c_text = ''End'', c_index = 2, start_char = 20, end_char = 23,
               c_metadata = FixedMeta 1 3\<rparr>]"
  have w: "str_split ?t = [''One'', ''two'', ''three.'', ''Four.'', ''End'']"
    by (simp add: str_split_def isspace_def)
  have n: "n_windows 5 0 2 = 3" by (simp add: n_windows_def)
  have f: "fixed_chunking ?S ?t = Some ?cs"
    by (subst fixed_chunking_closed)
       (simp_all add: w n upt_3 fixed_chunk_def py_slice_def slice_bound_def Let_def)
  from chunk_offsets[of ?S ?t "\<lambda>_. None"]
  have "sorted (map start_char ?cs)"
    and "sorted (map start_char (dynamic_chunking ?S (\<lambda>_. None) ?t))"
    using f by blast+
  then show ?thesis
    using f by (simp add: dynamic_chunking_example del: sorted_wrt.simps)
qed


section \<open>Facts about binary64 rounding\<close>

lemma round_half_even_bounds: "\<lfloor>x\<rfloor> \<le> round_half_even x \<and> round_half_even x \<le> \<lfloor>x\<rfloor> + 1"
  by (simp add: round_half_even_def Let_def)

lemma round_half_even_int: "round_half_even (of_int k) = k"
  by (simp add: round_half_even_def Let_def)

lemma round_half_even_error: "\<bar>real_of_int (round_half_even x) - x\<bar> \<le> 1 / 2"
proof -
  have "real_of_int \<lfloor>x\<rfloor> \<le> x" "x < real_of_int \<lfloor>x\<rfloor> + 1" by linarith+
  then show ?thesis
    by (auto simp: round_half_even_def Let_def abs_le_iff)
qed

lemma binary64_exponent_eq:
  assumes "2 powi k \<le> \<bar>x\<bar>" "\<bar>x\<bar> < 2 powi (k + 1)" "- 1022 \<le> k"
  shows "binary64_exponent x = k"
proof -
  have p: "0 < \<bar>x\<bar>" using assms(1) zero_less_power_int[of "2::real" k] by linarith
  have a: "(2::real) powr real_of_int k = 2 powi k"
    and b: "(2::real) powr real_of_int (k + 1) = 2 powi (k + 1)"
    by (simp_all only: powr_real_of_int'[of "2::real"] zero_le_numeral numeral_neq_zero
          simp_thms)
  have "\<lfloor>log 2 \<bar>x\<bar>\<rfloor> = k"
  proof -
    have one: "(1::real) < 2" by simp
    show ?thesis
      using assms(1,2) by (simp only: floor_log_eq_powr_iff[OF p one] a b simp_thms)
  qed
  then show ?thesis using assms(3) by (simp add: binary64_exponent_def)
qed

lemma to_binary64_eval:
  assumes "2 powi k \<le> \<bar>x\<bar>" "\<bar>x\<bar> < 2 powi (k + 1)" "- 1022 \<le> k"
  shows "to_binary64 x
           = of_int (round_half_even (x / 2 powi (k - 52))) * 2 powi (k - 52)"
proof -
  have "0 < \<bar>x\<bar>" using assms(1) zero_less_power_int[of "2::real" k] by linarith
  then have "x \<noteq> 0" by simp
  then show ?thesis
    by (simp add: to_binary64_def Let_def binary64_exponent_eq[OF assms])
qed

lemma to_binary64_1: "to_binary64 1 = 1"
  by (subst to_binary64_eval[where k = 0]) (simp_all add: round_half_even_def Let_def)

lemma to_binary64_half: "to_binary64 (1 / 2) = 1 / 2"
  by (subst to_binary64_eval[where k = "-1"]) (simp_all add: round_half_even_def Let_def)

lemma to_binary64_three_quarters: "to_binary64 (3 / 4) = 3 / 4"
  by (subst to_binary64_eval[where k = "-1"]) (simp_all add: round_half_even_def Let_def)

lemma to_binary64_tenth: "to_binary64 (1 / 10) = 3602879701896397 / 36028797018963968"
  by (subst to_binary64_eval[where k = "-4"]) (simp_all add: round_half_even_def Let_def)

lemma binary64_exponent_bounds:
  assumes "x \<noteq> 0"
  shows "\<bar>x\<bar> < 2 powi (binary64_exponent x + 1)"
    and "\<bar>x\<bar> \<le> 1 \<Longrightarrow> binary64_exponent x \<le> 0"
    and "\<bar>x\<bar> < 1 \<Longrightarrow> binary64_exponent x \<le> - 1"
proof -
  let ?f = "\<lfloor>log 2 \<bar>x\<bar>\<rfloor>"
  have p: "0 < \<bar>x\<bar>" using assms by simp
  have one: "(1::real) < 2" by simp
  have pw: "(2::real) powr real_of_int k = 2 powi k" for k
    by (simp only: powr_real_of_int'[of "2::real"] zero_le_numeral numeral_neq_zero simp_thms)
  have fl: "2 powi ?f \<le> \<bar>x\<bar>" "\<bar>x\<bar> < 2 powi (?f + 1)"
    using floor_log_eq_powr_iff[OF p one, of ?f] by (simp_all only: pw simp_thms)
  have mono: "(2::real) powi a \<le> 2 powi b" if "a \<le> b" for a b :: int
    using that by (intro power_int_increasing) simp_all
  have "(2::real) powi (?f + 1) \<le> 2 powi (binary64_exponent x + 1)"
    by (rule mono) (simp add: binary64_exponent_def)
  then show "\<bar>x\<bar> < 2 powi (binary64_exponent x + 1)" using fl(2) by linarith
  show "binary64_exponent x \<le> 0" if "\<bar>x\<bar> \<le> 1"
  proof -
    have "?f \<le> 0"
    proof (rule ccontr)
      assume "\<not> ?f \<le> 0"
      then have "1 \<le> ?f" by linarith
      then have "(2::real) powi 1 \<le> 2 powi ?f" by (rule mono)
      then show False using fl(1) that by simp
    qed
    then show ?thesis by (simp add: binary64_exponent_def)
  qed
  show "binary64_exponent x \<le> - 1" if "\<bar>x\<bar> < 1"
  proof -
    have "?f \<le> - 1"
    proof (rule ccontr)
      assume "\<not> ?f \<le> - 1"
      then have "0 \<le> ?f" by linarith
      then have "(2::real) powi 0 \<le> 2 powi ?f" by (rule mono)
      then show False using fl(1) that by simp
    qed
    then show ?thesis by (simp add: binary64_exponent_def)
  qed
qed

lemma to_binary64_nonneg: "0 \<le> x \<Longrightarrow> 0 \<le> to_binary64 x"
proof (cases "x = 0")
  case True
  then show ?thesis by (simp add: to_binary64_def)
next
  case False
  assume "0 \<le> x"
  let ?u = "(2::real) powi (binary64_exponent x - 52)"
  have u: "0 < ?u" by (rule zero_less_power_int) simp
  then have "0 \<le> x / ?u" using \<open>0 \<le> x\<close> by simp
  then have "0 \<le> \<lfloor>x / ?u\<rfloor>" by simp
  then have "0 \<le> round_half_even (x / ?u)"
    using round_half_even_bounds[of "x / ?u"] by linarith
  then show ?thesis using u False by (simp add: to_binary64_def Let_def)
qed

lemma to_binary64_le_1:
  assumes "0 \<le> x" "x \<le> 1"
  shows "to_binary64 x \<le> 1"
proof -
  consider "x = 0" | "x = 1" | "0 < x" "x < 1" using assms by linarith
  then show ?thesis
  proof cases
    case 1
    then show ?thesis by (simp add: to_binary64_def)
  next
    case 2
    then show ?thesis by (simp add: to_binary64_1)
  next
    case 3
    let ?e = "binary64_exponent x"
    let ?u = "(2::real) powi (?e - 52)"
    have nz: "x \<noteq> 0" using 3 by simp
    have u: "0 < ?u" by (rule zero_less_power_int) simp
    have e: "?e \<le> - 1" using binary64_exponent_bounds(3)[OF nz] 3 by simp
    have "(2::real) powi (53 + (?e - 52)) = 2 powi 53 * 2 powi (?e - 52)"
      by (rule power_int_add) simp
    then have split: "(2::real) powi (?e + 1) = 9007199254740992 * ?u"
      by (simp add: add.commute)
    have "x < 2 powi (?e + 1)" using binary64_exponent_bounds(1)[OF nz] 3 by simp
    then have "x < 9007199254740992 * ?u" by (simp only: split)
    then have "x / ?u < real_of_int 9007199254740992" using u by (simp add: pos_divide_less_eq)
    then have "\<lfloor>x / ?u\<rfloor> < 9007199254740992" by (simp only: floor_less_iff)
    then have "round_half_even (x / ?u) \<le> 9007199254740992"
      using round_half_even_bounds[of "x / ?u"] by linarith
    then have "real_of_int (round_half_even (x / ?u)) \<le> 9007199254740992"
      by linarith
    then have "real_of_int (round_half_even (x / ?u)) * ?u \<le> 9007199254740992 * ?u"
      using u by (intro mult_right_mono) simp_all
    then have "to_binary64 x \<le> 2 powi (?e + 1)"
      using nz by (simp add: to_binary64_def Let_def split)
    also have "\<dots> \<le> 2 powi 0" using e by (intro power_int_increasing) simp_all
    finally show ?thesis by simp
  qed
qed

lemma to_binary64_error:
  assumes "\<bar>x\<bar> \<le> 1"
  shows "\<bar>to_binary64 x - x\<bar> \<le> 2 powi (- 53)"
proof (cases "x = 0")
  case True
  then show ?thesis by (simp add: to_binary64_def)
next
  case False
  let ?e = "binary64_exponent x"
  let ?u = "(2::real) powi (?e - 52)"
  have u: "0 < ?u" by (rule zero_less_power_int) simp
  have e: "?e \<le> 0" using binary64_exponent_bounds(2)[OF False] assms by simp
  have "to_binary64 x - x = (real_of_int (round_half_even (x / ?u)) - x / ?u) * ?u"
    using u False by (simp add: to_binary64_def Let_def field_simps)
  then have "\<bar>to_binary64 x - x\<bar> = \<bar>real_of_int (round_half_even (x / ?u)) - x / ?u\<bar> * ?u"
    using u by (simp add: abs_mult)
  also have "\<dots> \<le> 1 / 2 * ?u"
    using round_half_even_error[of "x / ?u"] u by (intro mult_right_mono) simp_all
  also have "1 / 2 * ?u = 2 powi (?e - 53)"
  proof -
    have "(2::real) powi ((?e - 53) + 1) = 2 powi (?e - 53) * 2 powi 1"
      by (rule power_int_add) simp
    then show ?thesis by (simp add: add.commute)
  qed
  also have "\<dots> \<le> 2 powi (- 53)" using e by (intro power_int_increasing) simp_all
  finally show ?thesis .
qed

lemma py_round_zero: "py_round 0 n = 0"
  using round_half_even_int[of 0] by (simp add: py_round_def)

lemma py_round_error: "\<bar>py_round x n - x\<bar> \<le> 1 / (2 * 10 ^ n)"
proof -
  have "py_round x n - x = (real_of_int (round_half_even (x * 10 ^ n)) - x * 10 ^ n) / 10 ^ n"
    by (simp add: py_round_def field_simps)
  then have "\<bar>py_round x n - x\<bar>
               = \<bar>real_of_int (round_half_even (x * 10 ^ n)) - x * 10 ^ n\<bar> / 10 ^ n"
    by simp
  also have "\<dots> \<le> (1 / 2) / 10 ^ n"
    using round_half_even_error[of "x * 10 ^ n"] by (intro divide_right_mono) simp_all
  finally show ?thesis by simp
qed

lemma similarity_ties_to_even:
  "to_binary64 (1 - (15 / 32 - 1 / 2 ^ 54)) = 17 / 32
   \<and> py_round (17 / 32) 4 = 5312 / 10000
   \<and> to_binary64 (5312 / 10000) = 4784624244118415 / 9007199254740992"
proof -
  have a: "to_binary64 (1 - (15 / 32 - 1 / 2 ^ 54)) = 17 / 32"
    by (subst to_binary64_eval[where k = "-1"]) (simp_all add: round_half_even_def Let_def)
  have b: "py_round (17 / 32) 4 = 5312 / 10000"
    by (simp add: py_round_def round_half_even_def Let_def)
  have c: "to_binary64 (5312 / 10000) = 4784624244118415 / 9007199254740992"
    by (subst to_binary64_eval[where k = "-1"]) (simp_all add: round_half_even_def Let_def)
  show ?thesis using a b c by blast
qed

section \<open>Facts about the analyzer and the strategy selector\<close>

lemmas analysis_eval =
  has_structural_elements_def is_heading_def list_pattern_match_def str_isupper_def
  str_endswith_def is_upper_def is_lower_def is_list_marker_def str_strip_def str_split_def
  isspace_def Let_def

lemma heading_example:
  "has_structural_elements ''ALL CAPS HEADING\<newline>\<newline>Body text here.''"
  by (simp add: analysis_eval)

lemma plain_example_structure: "\<not> has_structural_elements ''plain short sentence.''"
  by (simp add: analysis_eval)






















lemma to_binary64_3: "to_binary64 3 = 3"
  by (subst to_binary64_eval[where k = 1]) (simp_all add: round_half_even_def Let_def)

lemma to_binary64_12: "to_binary64 12 = 12"
  by (subst to_binary64_eval[where k = 3]) (simp_all add: round_half_even_def Let_def)

lemma to_binary64_two_fifths: "to_binary64 (2 / 5) = 3602879701896397 / 9007199254740992"
  by (subst to_binary64_eval[where k = "-2"]) (simp_all add: round_half_even_def Let_def)

lemma to_binary64_three_fifths: "to_binary64 (3 / 5) = 5404319552844595 / 9007199254740992"
  by (subst to_binary64_eval[where k = "-1"]) (simp_all add: round_half_even_def Let_def)

lemma to_binary64_four_fifths: "to_binary64 (4 / 5) = 3602879701896397 / 4503599627370496"
  by (subst to_binary64_eval[where k = "-1"]) (simp_all add: round_half_even_def Let_def)

lemma average_plain_float:
  "to_binary64 (to_binary64 (min (to_binary64 (3 / 30)) 1 + 1) / 2)
     = 2476979795053773 / 4503599627370496"
proof -
  have a: "min (to_binary64 (3 / 30)) 1 = 3602879701896397 / 36028797018963968"
    using to_binary64_tenth by simp
  have b: "to_binary64 (3602879701896397 / 36028797018963968 + 1)
             = 2476979795053773 / 2251799813685248"
    by (subst to_binary64_eval[where k = 0]) (simp_all add: round_half_even_def Let_def)
  have c: "to_binary64 (2476979795053773 / 2251799813685248 / 2)
             = 2476979795053773 / 4503599627370496"
    by (subst to_binary64_eval[where k = "-1"]) (simp_all add: round_half_even_def Let_def)
  show ?thesis by (simp only: a b c)
qed

lemma average_boundary_float:
  "to_binary64 (to_binary64 (min (to_binary64 (12 / 30)) 1 + to_binary64 (12 / 15)) / 2)
     = 1351079888211149 / 2251799813685248"
proof -
  have a: "min (to_binary64 (12 / 30)) 1 = 3602879701896397 / 9007199254740992"
    using to_binary64_two_fifths by simp
  have d: "to_binary64 (12 / 15) = 3602879701896397 / 4503599627370496"
    using to_binary64_four_fifths by simp
  have b: "to_binary64 (3602879701896397 / 9007199254740992
                         + 3602879701896397 / 4503599627370496)
             = 1351079888211149 / 1125899906842624"
    by (subst to_binary64_eval[where k = 0]) (simp_all add: round_half_even_def Let_def)
  have c: "to_binary64 (1351079888211149 / 1125899906842624 / 2)
             = 1351079888211149 / 2251799813685248"
    by (subst to_binary64_eval[where k = "-1"]) (simp_all add: round_half_even_def Let_def)
  show ?thesis by (simp only: a b c d)
qed

lemma plain_example_float:
  assumes "tok ''plain short sentence.'' = None
           \<or> tok ''plain short sentence.'' = Some [''plain short sentence.'']"
  shows "calculate_complexity_float tok ''plain short sentence.''
           = 2476979795053773 / 4503599627370496"
proof -
  have s: "split_sentences tok ''plain short sentence.'' = [''plain short sentence.'']
           \<or> split_sentences tok ''plain short sentence.'' = [''plain short sentence'']"
    using assms by (auto simp: split_sentences_def is_terminator_def str_strip_def isspace_def)
  have l: "str_lower ''plain short sentence.'' = ''plain short sentence.''"
    by (simp add: str_lower_def is_upper_def)
  have w: "str_split ''plain short sentence.'' = [''plain'', ''short'', ''sentence.'']"
    "str_split ''plain short sentence'' = [''plain'', ''short'', ''sentence'']"
    by (simp_all add: str_split_def isspace_def)
  have c: "card (set [''plain'', ''short'', ''sentence.'']) = 3"
    by (simp add: card_set)
  have "calculate_complexity_float tok ''plain short sentence.''
          = to_binary64 (to_binary64 (min (to_binary64 (to_binary64 (3 / 1) / 30)) 1
                                       + to_binary64 (3 / 3)) / 2)"
    using s by (auto simp: calculate_complexity_float_def Let_def l w c)
  also have "\<dots> = to_binary64 (to_binary64 (min (to_binary64 (3 / 30)) 1 + 1) / 2)"
    by (simp add: to_binary64_3 to_binary64_1)
  finally show ?thesis by (simp only: average_plain_float)
qed

lemma boundary_example:
  "calculate_complexity (\<lambda>_. None) ''a b c d e f g h i j k k . . .'' = 3 / 5
   \<and> calculate_complexity_float (\<lambda>_. None) ''a b c d e f g h i j k k . . .''
       = 1351079888211149 / 2251799813685248
   \<and> to_binary64 0.6 = 5404319552844595 / 9007199254740992
   \<and> \<not> has_structural_elements ''a b c d e f g h i j k k . . .''"
proof -
  let ?t = "''a b c d e f g h i j k k . . .''"
  have s: "split_sentences (\<lambda>_. None) ?t = [''a b c d e f g h i j k k'']"
    by (simp add: split_sentences_def is_terminator_def str_strip_def isspace_def)
  have l: "str_lower ?t = ?t"
    by (simp add: str_lower_def is_upper_def)
  have w: "str_split ?t = [''a'', ''b'', ''c'', ''d'', ''e'', ''f'', ''g'', ''h'', ''i'', ''j'',
                           ''k'', ''k'', ''.'', ''.'', ''.'']"
    "str_split ''a b c d e f g h i j k k''
       = [''a'', ''b'', ''c'', ''d'', ''e'', ''f'', ''g'', ''h'', ''i'', ''j'', ''k'', ''k'']"
    by (simp_all add: str_split_def isspace_def)
  have c: "card (set [''a'', ''b'', ''c'', ''d'', ''e'', ''f'', ''g'', ''h'', ''i'', ''j'',
                      ''k'', ''k'', ''.'', ''.'', ''.'']) = 12"
    by (simp add: card_set)
  have e: "calculate_complexity (\<lambda>_. None) ?t = 3 / 5"
    by (simp add: calculate_complexity_def Let_def s l w c)
  have "calculate_complexity_float (\<lambda>_. None) ?t
          = to_binary64 (to_binary64 (min (to_binary64 (to_binary64 (12 / 1) / 30)) 1
                                       + to_binary64 (12 / 15)) / 2)"
    by (simp add: calculate_complexity_float_def Let_def s l w c)
  also have "\<dots> = to_binary64 (to_binary64 (min (to_binary64 (12 / 30)) 1
                                       + to_binary64 (12 / 15)) / 2)"
    by (simp add: to_binary64_12)
  finally have f: "calculate_complexity_float (\<lambda>_. None) ?t
                     = 1351079888211149 / 2251799813685248"
    by (simp only: average_boundary_float)
  have t: "to_binary64 0.6 = 5404319552844595 / 9007199254740992"
    using to_binary64_three_fifths by simp
  have h: "\<not> has_structural_elements ?t"
    by (simp add: analysis_eval)
  show ?thesis using e f t h by blast
qed

text \<open>
  C6.  \<open>decide_strategy\<close> returns \<open>dynamic\<close> if and only if the complexity that the code
  computes, a float, exceeds the float \<open>0.6\<close> or the text has structural elements, and
  \<open>fixed\<close> otherwise; the strategy depends on the text alone (not on the metadata or the
  configuration), so identical input yields the same strategy; it is \<open>dynamic\<close> for the
  two-paragraph text with the heading in capitals, whatever the tokenizer does, and \<open>fixed\<close>
  for \<open>plain short sentence.\<close> when the tokenizer returns the text as its one sentence or
  fails, so that the punctuation fallback is used.  The comparison is that of the floats:
  for \<open>a b c d e f g h i j k k . . .\<close> under the fallback the exact complexity is 3/5, the
  computed one is the next float above the float \<open>0.6\<close>, and the strategy is \<open>dynamic\<close>.
\<close>

theorem decide_strategy_rule:
  "(decide_strategy self tok text md = ''dynamic''
      \<longleftrightarrow> to_binary64 0.6 < calculate_complexity_float tok text
          \<or> has_structural_elements text)
   \<and> (decide_strategy self tok text md = ''fixed''
      \<longleftrightarrow> \<not> (to_binary64 0.6 < calculate_complexity_float tok text
             \<or> has_structural_elements text))
   \<and> decide_strategy self tok text md = decide_strategy self' tok text md'
   \<and> decide_strategy self tok ''ALL CAPS HEADING\<newline>\<newline>Body text here.'' Map.empty
       = ''dynamic''
   \<and> (tok ''plain short sentence.'' = None
        \<or> tok ''plain short sentence.'' = Some [''plain short sentence.'']
      \<longrightarrow> decide_strategy self tok ''plain short sentence.'' Map.empty = ''fixed'')
   \<and> decide_strategy self (\<lambda>_. None) ''a b c d e f g h i j k k . . .'' Map.empty
       = ''dynamic''"
proof -
  have r: "decide_strategy s k t m =
             (if to_binary64 0.6 < calculate_complexity_float k t \<or> has_structural_elements t
              then ''dynamic'' else ''fixed'')" for s k t m
    by (simp add: decide_strategy_def Let_def)
  have a: "decide_strategy self tok text md = ''dynamic''
      \<longleftrightarrow> to_binary64 0.6 < calculate_complexity_float tok text
          \<or> has_structural_elements text"
    by (simp add: r)
  have b: "decide_strategy self tok text md = ''fixed''
      \<longleftrightarrow> \<not> (to_binary64 0.6 < calculate_complexity_float tok text
             \<or> has_structural_elements text)"
    by (simp add: r)
  have c: "decide_strategy self tok text md = decide_strategy self' tok text md'"
    by (simp only: r)
  have d: "decide_strategy self tok ''ALL CAPS HEADING\<newline>\<newline>Body text here.'' Map.empty
             = ''dynamic''"
    by (simp only: r heading_example simp_thms if_True)
  have e: "decide_strategy self tok ''plain short sentence.'' Map.empty = ''fixed''"
    if "tok ''plain short sentence.'' = None
        \<or> tok ''plain short sentence.'' = Some [''plain short sentence.'']"
    by (simp add: r to_binary64_three_fifths plain_example_float[of tok, OF that]
        plain_example_structure)
  have f: "decide_strategy self (\<lambda>_. None) ''a b c d e f g h i j k k . . .'' Map.empty
             = ''dynamic''"
    by (simp add: r to_binary64_three_fifths boundary_example)
  show ?thesis using a b c d e f by blast
qed

theorem decide_strategy_rule_witness:
  "calculate_complexity_float (\<lambda>_. None) ''plain short sentence.''
     = 2476979795053773 / 4503599627370496
   \<and> to_binary64 0.6 = 5404319552844595 / 9007199254740992
   \<and> \<not> has_structural_elements ''plain short sentence.''
   \<and> decide_strategy \<lparr>default_chunk_size = 512, default_overlap = 50\<rparr> (\<lambda>_. None)
        ''plain short sentence.'' Map.empty = ''fixed''"
proof -
  have t: "(\<lambda>_. None :: string list option) ''plain short sentence.'' = None
           \<or> (\<lambda>_. None) ''plain short sentence.'' = Some [''plain short sentence.'']"
    by simp
  from decide_strategy_rule[of "\<lparr>default_chunk_size = 512, default_overlap = 50\<rparr>"
      "\<lambda>_. None" "''plain short sentence.''" Map.empty]
  have "decide_strategy \<lparr>default_chunk_size = 512, default_overlap = 50\<rparr> (\<lambda>_. None)
        ''plain short sentence.'' Map.empty = ''fixed''"
    using t by blast
  moreover have "to_binary64 0.6 = 5404319552844595 / 9007199254740992"
    using to_binary64_three_fifths by simp
  ultimately show ?thesis
    using plain_example_float[of "\<lambda>_. None", OF t] plain_example_structure by simp
qed





section \<open>Facts about the retrieval service\<close>

lemma py_round_unit:
  assumes "0 \<le> x" "x \<le> 1"
  shows "0 \<le> py_round x n \<and> py_round x n \<le> 1"
proof -
  let ?y = "x * 10 ^ n"
  have y0: "0 \<le> ?y" using assms by simp
  have y1: "?y \<le> 10 ^ n" using assms by (simp add: mult_left_le_one_le)
  have lo: "0 \<le> round_half_even ?y"
    using round_half_even_bounds[of ?y] y0 by (smt (verit) zero_le_floor)
  have hi: "round_half_even ?y \<le> 10 ^ n"
  proof (cases "?y = 10 ^ n")
    case True
    have "round_half_even ?y = round_half_even (of_int (10 ^ n))" using True by simp
    then show ?thesis by (simp only: round_half_even_int)
  next
    case False
    then have "?y < of_int (10 ^ n)" using y1 by simp
    then have "\<lfloor>?y\<rfloor> < 10 ^ n" by (simp only: floor_less_iff)
    then show ?thesis using round_half_even_bounds[of ?y] by linarith
  qed
  have "real_of_int (round_half_even ?y) \<le> 10 ^ n"
    using hi by (metis of_int_le_iff of_int_numeral of_int_power)
  then show ?thesis using lo by (simp add: py_round_def)
qed

lemma semantic_search_results:
  assumes "generate_embedding self q = Inr emb"
    and "collection_query self (search_similar_chunks self emb top_k doc) = Inr vr"
  shows "semantic_search self q top_k doc t0 t1 qlog =
     (if first_or_empty (ids vr) = []
      then (Inr \<lparr>query = q, results = [], total_results = 0, processing_time = t1 - t0\<rparr>,
            qlog @ [search_similar_chunks self emb top_k doc])
      else (let rs = map (build_result self (first_or_empty (distances vr)))
                         (enumerate 0 (get_chunk_details self (first_or_empty (ids vr))))
            in (Inr \<lparr>query = q, results = rs, total_results = int (length rs),
                     processing_time = py_round (t1 - t0) 3\<rparr>,
                qlog @ [search_similar_chunks self emb top_k doc])))"
  using assms by (simp add: semantic_search_def Let_def)

lemma semantic_search_total:
  "fst (semantic_search self q top_k doc t0 t1 qlog) = Inr r \<Longrightarrow>
   total_results r = int (length (results r))"
  by (auto simp: semantic_search_def Let_def split: sum.splits if_splits)

lemma semantic_search_log:
  "length (snd (semantic_search self q top_k doc t0 t1 qlog)) \<le> length qlog + 1"
  by (auto simp: semantic_search_def Let_def split: sum.splits if_splits)


lemma to_binary64_0: "to_binary64 0 = 0"
  by (simp add: to_binary64_def)

lemmas example_eval =
  semantic_search_def search_similar_chunks_def first_or_empty_def get_chunk_details_def
  build_result_def get_document_def py_round_def round_half_even_def Let_def
  to_binary64_0 to_binary64_half to_binary64_three_quarters

text \<open>
  C1.  The claim: when the vector store returns ids ordered by ascending distance, the
  results of \<open>semantic_search\<close> are in exactly that order, the i-th result being the i-th
  returned id with its distance.  The code fetches the rows with an \<open>IN\<close> query, which
  returns them in the order of the table, and pairs the i-th row with the i-th distance.
  Here the store ranks \<open>c2\<close> (distance 0.25) before \<open>c1\<close> (distance 0.5); the results list
  \<open>c1\<close> first, with the score 0.75 that belongs to \<open>c2\<close>.
\<close>

theorem semantic_search_order_evaluated:
  "map (\<lambda>r. (chunk_id r, similarity_score r))
     (case fst (semantic_search (example_service [[1 / 4, 1 / 2]]) ''q'' 2 None 0 0 []) of
        Inr response \<Rightarrow> results response
      | Inl _ \<Rightarrow> [])
   = [(''c1'', 3 / 4), (''c2'', 1 / 2)]"
  by (simp add: example_service_def example_eval)

text \<open>
  C3.  The claim: when the vector store returns no ids, \<open>semantic_search\<close> returns the query,
  an empty results list, \<open>total_results = 0\<close> and \<open>processing_time\<close> rounded to 3 decimals,
  and raises nothing.  The early return of the code gives the elapsed time as it is, not
  rounded: with an elapsed time of 0.00012345 s the response carries 0.00012345, whose
  rounding to 3 decimals is 0.
\<close>

theorem semantic_search_empty_evaluated:
  "semantic_search empty_service ''q'' 5 None 0 (12345 / 100000000) []
   = (Inr \<lparr>query = ''q'', results = [], total_results = 0,
           processing_time = 12345 / 100000000\<rparr>, [([0], 5, None)])
   \<and> py_round (12345 / 100000000) 3 = 0"
  by (simp add: empty_service_def example_eval)

text \<open>
  C7.  For every result at rank \<open>i\<close> of \<open>semantic_search\<close>, \<open>similarity_score\<close> is the float
  \<open>1.0 - d\<close>, for \<open>d\<close> the \<open>i\<close>-th returned distance, rounded to 4 decimals: it is the float
  nearest to a number \<open>k / 10 ^ 4\<close> that lies within 0.00005 of the float \<open>1.0 - d\<close>.  Where
  the list of distances has no \<open>i\<close>-th entry the distance is taken as 1 and the score is
  exactly 0.  When the distances lie in [0, 1], the score lies in [0, 1] and within
  0.00005 (and two float roundings, \<open>2 ^ -52\<close>) of the exact \<open>1 - d\<close>.
\<close>

theorem similarity_score_from_distance:
  assumes "generate_embedding self q = Inr emb"
    and "collection_query self (search_similar_chunks self emb top_k doc) = Inr vr"
    and "fst (semantic_search self q top_k doc t0 t1 qlog) = Inr response"
    and "i < length (results response)"
  shows "(let d = (if i < length (first_or_empty (distances vr))
                   then first_or_empty (distances vr) ! i else 1);
              x = to_binary64 (1 - d);
              score = similarity_score (results response ! i)
          in score = to_binary64 (py_round x 4)
             \<and> (\<exists>k. py_round x 4 = real_of_int k / 10 ^ 4)
             \<and> \<bar>py_round x 4 - x\<bar> \<le> 5 / 10 ^ 5
             \<and> (\<not> i < length (first_or_empty (distances vr)) \<longrightarrow> score = 0)
             \<and> ((\<forall>d \<in> set (first_or_empty (distances vr)). 0 \<le> d \<and> d \<le> 1)
                  \<longrightarrow> 0 \<le> score \<and> score \<le> 1
                      \<and> \<bar>score - (1 - d)\<bar> \<le> 5 / 10 ^ 5 + 2 powi (- 52)))"
proof -
  let ?ds = "first_or_empty (distances vr)"
  let ?chunks = "get_chunk_details self (first_or_empty (ids vr))"
  let ?d = "if i < length ?ds then ?ds ! i else 1"
  let ?x = "to_binary64 (1 - ?d)"
  let ?r = "py_round ?x 4"
  let ?score = "similarity_score (results response ! i)"
  have ne: "first_or_empty (ids vr) \<noteq> []"
    using assms by (auto simp: semantic_search_results split: if_splits)
  have rs: "results response = map (build_result self ?ds) (enumerate 0 ?chunks)"
    using assms(3) ne by (auto simp: semantic_search_results[OF assms(1,2)] Let_def)
  have len: "i < length ?chunks" using assms(4) rs by simp
  have sc: "?score = to_binary64 ?r"
    using len by (simp add: rs build_result_def nth_enumerate_eq Let_def)
  have dec: "\<exists>k. ?r = real_of_int k / 10 ^ 4"
    by (auto simp: py_round_def)
  have near: "\<bar>?r - ?x\<bar> \<le> 5 / 10 ^ 5"
    using py_round_error[of ?x 4] by simp
  have z: "\<not> i < length ?ds \<longrightarrow> ?score = 0"
    by (simp add: sc py_round_zero to_binary64_0)
  have u: "(\<forall>d \<in> set ?ds. 0 \<le> d \<and> d \<le> 1)
            \<longrightarrow> 0 \<le> ?score \<and> ?score \<le> 1 \<and> \<bar>?score - (1 - ?d)\<bar> \<le> 5 / 10 ^ 5 + 2 powi (- 52)"
  proof
    assume a: "\<forall>d \<in> set ?ds. 0 \<le> d \<and> d \<le> 1"
    have "0 \<le> ?d \<and> ?d \<le> 1" using a by (auto simp: all_set_conv_all_nth)
    then have e: "0 \<le> 1 - ?d" "1 - ?d \<le> 1" by linarith+
    have x: "0 \<le> ?x" "?x \<le> 1"
      using e by (simp_all only: to_binary64_nonneg to_binary64_le_1)
    have r: "0 \<le> ?r \<and> ?r \<le> 1" using x by (rule py_round_unit)
    have s: "0 \<le> ?score" "?score \<le> 1"
      using r by (simp_all only: sc to_binary64_nonneg to_binary64_le_1)
    have e1: "\<bar>?x - (1 - ?d)\<bar> \<le> 2 powi (- 53)"
      using e by (intro to_binary64_error) simp
    have e2: "\<bar>?score - ?r\<bar> \<le> 2 powi (- 53)"
      unfolding sc using r by (intro to_binary64_error) simp
    have "(2::real) powi (- 53) + 2 powi (- 53) = 2 powi (- 52)" by simp
    then have "\<bar>?score - (1 - ?d)\<bar> \<le> 5 / 10 ^ 5 + 2 powi (- 52)"
      using e1 e2 near by linarith
    then show "0 \<le> ?score \<and> ?score \<le> 1 \<and> \<bar>?score - (1 - ?d)\<bar> \<le> 5 / 10 ^ 5 + 2 powi (- 52)"
      using s by blast
  qed
  show ?thesis
    unfolding Let_def using sc dec near z u by blast
qed

theorem similarity_score_from_distance_witness:
  "generate_embedding (example_service [[1 / 4]]) ''q'' = Inr [0]
   \<and> collection_query (example_service [[1 / 4]])
        (search_similar_chunks (example_service [[1 / 4]]) [0] 2 None)
      = Inr \<lparr>ids = [[''c2'', ''c1'']], distances = [[1 / 4]]\<rparr>
   \<and> first_or_empty [[1 / 4 :: real]] = [1 / 4]
   \<and> map similarity_score
        (case fst (semantic_search (example_service [[1 / 4]]) ''q'' 2 None 0 0 []) of
           Inr response \<Rightarrow> results response
         | Inl _ \<Rightarrow> [])
      = [3 / 4, 0]"
proof -
  let ?S = "example_service [[1 / 4]]"
  let ?R = "\<lparr>query = ''q'',
             results =
               [\<lparr>chunk_id = ''c1'', document_id = ''d'', document_name = ''f.txt'',
                 chunk_text = ''alpha'', similarity_score = 3 / 4, chunk_index = 0\<rparr>,
                \<lparr>chunk_id = ''c2'', document_id = ''d'', document_name = ''f.txt'',
                 chunk_text = ''beta'', similarity_score = 0, chunk_index = 1\<rparr>],
             total_results = 2, processing_time = 0\<rparr>"
  have e: "generate_embedding ?S ''q'' = Inr [0]"
    by (simp add: example_service_def)
  have v: "collection_query ?S (search_similar_chunks ?S [0] 2 None)
             = Inr \<lparr>ids = [[''c2'', ''c1'']], distances = [[1 / 4]]\<rparr>"
    by (simp add: example_service_def)
  have r: "fst (semantic_search ?S ''q'' 2 None 0 0 []) = Inr ?R"
    by (simp add: example_service_def example_eval)
  have i: "1 < length (results ?R)" by simp
  have d: "first_or_empty [[1 / 4 :: real]] = [1 / 4]"
    by (simp add: first_or_empty_def)
  from similarity_score_from_distance[OF e v r i]
  have "similarity_score (results ?R ! 1) = 0" by (simp add: first_or_empty_def Let_def)
  then show ?thesis using e v d r by simp
qed

text \<open>
  C8.  \<open>hybrid_search\<close> runs \<open>semantic_search\<close> for the same query and \<open>top_k\<close> (with the
  \<open>document_id\<close> of the filters) and returns no more results than it: the queries sent to the
  vector store are those of that one search, at most one, so nothing is requested to
  backfill; and a language filter that matches none of the results yields an empty list and
  \<open>total_results = 0\<close>, not an error.
\<close>

theorem hybrid_search_filters_after_retrieval:
  "snd (hybrid_search self q top_k filters t0 t1 qlog)
     = snd (semantic_search self q top_k (filters_document_id filters) t0 t1 qlog)
   \<and> length (snd (hybrid_search self q top_k filters t0 t1 qlog)) \<le> length qlog + 1
   \<and> (\<forall>sem. fst (semantic_search self q top_k (filters_document_id filters) t0 t1 qlog) = Inr sem
        \<longrightarrow> (\<exists>hyb. fst (hybrid_search self q top_k filters t0 t1 qlog) = Inr hyb
               \<and> length (results hyb) \<le> length (results sem)
               \<and> total_results hyb \<le> total_results sem
               \<and> (\<forall>f lang. filters = Some f \<and> f ''language'' = Some lang
                     \<and> (\<forall>r \<in> set (results sem). \<not> language_matches self lang r)
                    \<longrightarrow> results hyb = [] \<and> total_results hyb = 0)))"
proof -
  let ?sem = "semantic_search self q top_k (filters_document_id filters) t0 t1 qlog"
  let ?hyb = "hybrid_search self q top_k filters t0 t1 qlog"
  have l: "snd ?hyb = snd ?sem"
    by (cases ?sem) (auto simp: hybrid_search_def Let_def split: sum.splits option.splits)
  have n: "length (snd ?hyb) \<le> length qlog + 1"
    unfolding l by (rule semantic_search_log)
  have r: "\<exists>hyb. fst ?hyb = Inr hyb
               \<and> length (results hyb) \<le> length (results sem)
               \<and> total_results hyb \<le> total_results sem
               \<and> (\<forall>f lang. filters = Some f \<and> f ''language'' = Some lang
                     \<and> (\<forall>r \<in> set (results sem). \<not> language_matches self lang r)
                    \<longrightarrow> results hyb = [] \<and> total_results hyb = 0)"
    if s: "fst ?sem = Inr sem" for sem
  proof -
    have t: "total_results sem = int (length (results sem))"
      using s by (rule semantic_search_total)
    obtain lg where e: "?sem = (Inr sem, lg)" using s by (cases ?sem) auto
    show ?thesis
    proof (cases "case filters of None \<Rightarrow> None | Some f \<Rightarrow> f ''language''")
      case None
      then have "fst ?hyb = Inr sem" by (simp add: hybrid_search_def e)
      moreover have "\<not> (filters = Some f \<and> f ''language'' = Some lang)" for f lang
        using None by (auto split: option.splits)
      ultimately show ?thesis by auto
    next
      case (Some lang)
      let ?fr = "filter (language_matches self lang) (results sem)"
      have h: "fst ?hyb = Inr (sem\<lparr>results := ?fr, total_results := int (length ?fr)\<rparr>)"
        using Some by (simp add: hybrid_search_def e Let_def)
      have "lang' = lang" if "filters = Some f" "f ''language'' = Some lang'" for f lang'
        using that Some by simp
      then show ?thesis
        using h t by (auto simp: filter_empty_conv)
    qed
  qed
  show ?thesis using l n r by blast
qed


theorem hybrid_search_filters_after_retrieval_witness:
  "hybrid_search (example_service [[1 / 4, 1 / 2]]) ''q'' 2
      (Some [''language'' \<mapsto> ''arabic'']) 0 0 []
   = (Inr \<lparr>query = ''q'', results = [], total_results = 0, processing_time = 0\<rparr>,
      [([0], 2, None)])"
proof -
  let ?S = "example_service [[1 / 4, 1 / 2]]"
  let ?f = "[''language'' \<mapsto> ''arabic'']"
  let ?R = "\<lparr>query = ''q'',
             results =
               [\<lparr>chunk_id = ''c1'', document_id = ''d'', document_name = ''f.txt'',
                 chunk_text = ''alpha'', similarity_score = 3 / 4, chunk_index = 0\<rparr>,
                \<lparr>chunk_id = ''c2'', document_id = ''d'', document_name = ''f.txt'',
                 chunk_text = ''beta'', similarity_score = 1 / 2, chunk_index = 1\<rparr>],
             total_results = 2, processing_time = 0\<rparr>"
  have d: "filters_document_id (Some ?f) = None"
    by (simp add: filters_document_id_def)
  have s: "semantic_search ?S ''q'' 2 None 0 0 [] = (Inr ?R, [([0], 2, None)])"
    by (simp add: example_service_def example_eval)
  have m: "\<forall>r \<in> set (results ?R). \<not> language_matches ?S ''arabic'' r"
    by (simp add: language_matches_def get_document_def example_service_def)
  from hybrid_search_filters_after_retrieval[of ?S "''q''" 2 "Some ?f" 0 0 "[]"]
  have l: "snd (hybrid_search ?S ''q'' 2 (Some ?f) 0 0 []) = [([0], 2, None)]"
    and "\<exists>hyb. fst (hybrid_search ?S ''q'' 2 (Some ?f) 0 0 []) = Inr hyb
           \<and> (\<forall>f lang. Some ?f = Some f \<and> f ''language'' = Some lang
                 \<and> (\<forall>r \<in> set (results ?R). \<not> language_matches ?S lang r)
                \<longrightarrow> results hyb = [] \<and> total_results hyb = 0)"
    unfolding d s by auto
  then obtain hyb where h: "fst (hybrid_search ?S ''q'' 2 (Some ?f) 0 0 []) = Inr hyb"
    and z: "results hyb = []" "total_results hyb = 0"
    using m by fastforce
  have "query hyb = ''q'' \<and> processing_time hyb = 0"
    using h by (auto simp: hybrid_search_def d s Let_def)
  then have "hyb = \<lparr>query = ''q'', results = [], total_results = 0, processing_time = 0\<rparr>"
    using z by simp
  then show ?thesis using h l by (simp add: prod_eq_iff)
qed



end
